theory Spec2Isabelle
  imports Complex_Main
begin

section \<open>The NAND disk of the write-amplification simulator\<close>

text \<open>
  A shallow embedding of \<^verbatim>\<open>simulator/BaseNANDDisk.py\<close> (class \<^verbatim>\<open>BaseNANDDisk\<close>),
  \<^verbatim>\<open>simulator/NAND/common.py\<close> and
  \<^verbatim>\<open>simulator/NAND/WritePolicies/WritePolicyInPlace.py\<close>. \<^verbatim>\<open>BaseNANDDisk\<close> reads its
  constants from a module \<^verbatim>\<open>simulator.common\<close> that is not among the sources; they are
  taken from \<^verbatim>\<open>simulator/NAND/common.py\<close>, which has them under the same names.

  Python integers are \<open>int\<close>. A dictionary is a map, and reading a key that is absent is
  the error \<open>KeyError\<close>. A method that mutates \<^verbatim>\<open>self\<close> takes the disk and returns the
  new one; a method that raises returns \<open>Inl\<close> of the error (the partly updated object
  an exception leaves behind is not modelled).
\<close>

subsection \<open>Values\<close>

text \<open>The page statuses of \<^verbatim>\<open>common.py\<close>: the strings "U", "D" and "E".\<close>

datatype page_status = PAGE_IN_USE | PAGE_DIRTY | PAGE_EMPTY

text \<open>
  The exceptions: \<open>ValueError\<close> is raised by the source itself, \<open>KeyError\<close> by a dictionary
  lookup, \<open>RecursionError\<close> by the interpreter when calls nest deeper than its limit,
  \<open>DivisionByZero\<close> and \<open>InvalidOperation\<close> by the \<^verbatim>\<open>decimal\<close> module.
\<close>

datatype error = ValueError | KeyError | RecursionError | DivisionByZero | InvalidOperation

text \<open>The class attributes of \<^verbatim>\<open>BaseNANDDisk\<close> that the methods read.\<close>

record geometry =
  total_blocks :: int
  pages_per_block :: int
  write_page_time :: int
  read_page_time :: int
  erase_block_time :: int

text \<open>The values the class itself gives them.\<close>

definition BaseNANDDisk_geometry :: geometry where
  "BaseNANDDisk_geometry =
     \<lparr>total_blocks = 256, pages_per_block = 64, write_page_time = 250,
      read_page_time = 25, erase_block_time = 1500\<rparr>"

text \<open>
  One entry \<^verbatim>\<open>self._ftl[b]\<close>: a dictionary with the integer keys of the pages and the two
  keys \<^verbatim>\<open>'empty'\<close> and \<^verbatim>\<open>'dirty'\<close>, which the constructor always sets.
\<close>

record block =
  pages :: "int \<rightharpoonup> page_status"
  empty :: int
  dirty :: int

text \<open>The instance attributes (the leading underscore of the source's names dropped).\<close>

record disk =
  elapsed_time :: int
  host_page_write_request :: int
  page_write_executed :: int
  page_write_failed :: int
  host_page_read_request :: int
  page_read_executed :: int
  block_erase_executed :: int
  ftl :: "int \<rightharpoonup> block"

text \<open>Which \<^verbatim>\<open>full_block_write_policy\<close> the disk's class has: the one of
  \<^verbatim>\<open>BaseNANDDisk\<close> (the naive policy) or the override of \<^verbatim>\<open>WritePolicyInPlace\<close>.\<close>

datatype policy = Naive | InPlace

subsection \<open>Sequencing, ranges and dictionary access\<close>

definition and_then :: "error + 'a \<Rightarrow> ('a \<Rightarrow> error + 'b) \<Rightarrow> error + 'b" where
  "and_then m f = (case m of Inl e \<Rightarrow> Inl e | Inr x \<Rightarrow> f x)"

text \<open>\<^verbatim>\<open>range(a, b)\<close>: the integers from \<open>a\<close> up to \<open>b - 1\<close>.\<close>

definition py_range :: "int \<Rightarrow> int \<Rightarrow> int list" where
  "py_range a b = [a..b - 1]"

text \<open>\<^verbatim>\<open>self._ftl[b]\<close>\<close>

definition get_block :: "disk \<Rightarrow> int \<Rightarrow> error + block" where
  "get_block d b = (case ftl d b of None \<Rightarrow> Inl KeyError | Some blk \<Rightarrow> Inr blk)"

text \<open>\<^verbatim>\<open>self._ftl[b][p]\<close>\<close>

definition get_page :: "disk \<Rightarrow> int \<Rightarrow> int \<Rightarrow> error + page_status" where
  "get_page d b p =
     and_then (get_block d b)
       (\<lambda>blk. case pages blk p of None \<Rightarrow> Inl KeyError | Some s \<Rightarrow> Inr s)"

text \<open>\<^verbatim>\<open>self._ftl[b][p] = s\<close>\<close>

definition set_page :: "disk \<Rightarrow> int \<Rightarrow> int \<Rightarrow> page_status \<Rightarrow> error + disk" where
  "set_page d b p s =
     and_then (get_block d b)
       (\<lambda>blk. Inr (d\<lparr>ftl := (ftl d)(b \<mapsto> blk\<lparr>pages := (pages blk)(p \<mapsto> s)\<rparr>)\<rparr>))"

text \<open>\<^verbatim>\<open>self._ftl[b]['empty'] += k\<close> and \<^verbatim>\<open>self._ftl[b]['dirty'] += k\<close>\<close>

definition add_empty :: "disk \<Rightarrow> int \<Rightarrow> int \<Rightarrow> error + disk" where
  "add_empty d b k =
     and_then (get_block d b)
       (\<lambda>blk. Inr (d\<lparr>ftl := (ftl d)(b \<mapsto> blk\<lparr>empty := empty blk + k\<rparr>)\<rparr>))"

definition add_dirty :: "disk \<Rightarrow> int \<Rightarrow> int \<Rightarrow> error + disk" where
  "add_dirty d b k =
     and_then (get_block d b)
       (\<lambda>blk. Inr (d\<lparr>ftl := (ftl d)(b \<mapsto> blk\<lparr>dirty := dirty blk + k\<rparr>)\<rparr>))"

subsection \<open>The constructor\<close>

text \<open>
  \<^verbatim>\<open>__init__\<close>: every counter is zero; for every block of \<^verbatim>\<open>range(0, total_blocks)\<close> a new
  dictionary whose pages of \<^verbatim>\<open>range(0, pages_per_block)\<close> are empty, with
  \<^verbatim>\<open>'empty' = pages_per_block\<close> and \<^verbatim>\<open>'dirty' = 0\<close>.
\<close>

definition init_block :: "geometry \<Rightarrow> block" where
  "init_block g =
     \<lparr>pages = fold (\<lambda>p m. m(p \<mapsto> PAGE_EMPTY)) (py_range 0 (pages_per_block g)) Map.empty,
      empty = pages_per_block g, dirty = 0\<rparr>"

definition BaseNANDDisk_init :: "geometry \<Rightarrow> disk" where
  "BaseNANDDisk_init g =
     \<lparr>elapsed_time = 0, host_page_write_request = 0, page_write_executed = 0,
      page_write_failed = 0, host_page_read_request = 0, page_read_executed = 0,
      block_erase_executed = 0,
      ftl = fold (\<lambda>b m. m(b \<mapsto> init_block g)) (py_range 0 (total_blocks g)) Map.empty\<rparr>"

subsection \<open>The decorators\<close>

text \<open>\<^verbatim>\<open>check_block\<close> and \<^verbatim>\<open>check_page\<close> raise before the method runs. Every method is
  called with its coordinates as keyword arguments, so the check always applies.\<close>

definition check_block :: "geometry \<Rightarrow> int \<Rightarrow> error + 'a \<Rightarrow> error + 'a" where
  "check_block g block k =
     (if block < 0 \<or> block \<ge> total_blocks g then Inl ValueError else k)"

definition check_page :: "geometry \<Rightarrow> int \<Rightarrow> error + 'a \<Rightarrow> error + 'a" where
  "check_page g page k =
     (if page < 0 \<or> page \<ge> pages_per_block g then Inl ValueError else k)"

subsection \<open>Disk operation utilities\<close>

text \<open>The scan of \<^verbatim>\<open>get_empty_page\<close>; the empty list is the raise after the loop.\<close>

fun first_empty :: "(int \<rightharpoonup> page_status) \<Rightarrow> int list \<Rightarrow> error + int" where
  "first_empty pg [] = Inl ValueError"
| "first_empty pg (p # ps) =
     (case pg p of
        None \<Rightarrow> Inl KeyError
      | Some s \<Rightarrow> if s = PAGE_EMPTY then Inr p else first_empty pg ps)"

definition get_empty_page :: "geometry \<Rightarrow> int \<Rightarrow> disk \<Rightarrow> error + int" where
  "get_empty_page g block d =
     check_block g block
       (and_then (get_block d block)
          (\<lambda>blk. if empty blk \<le> 0 then Inl ValueError
                 else first_empty (pages blk) (py_range 0 (pages_per_block g))))"

subsection \<open>Reading and erasing\<close>

definition raw_read_page :: "geometry \<Rightarrow> int \<Rightarrow> int \<Rightarrow> disk \<Rightarrow> error + (bool \<times> disk)" where
  "raw_read_page g block page d =
     check_block g block (check_page g page
       (and_then (get_page d block page)
          (\<lambda>s. if s = PAGE_IN_USE
                then Inr (True, d\<lparr>elapsed_time := elapsed_time d + read_page_time g,
                                   page_read_executed := page_read_executed d + 1\<rparr>)
                else Inr (False, d))))"

text \<open>The loop of \<^verbatim>\<open>raw_erase_block\<close> over the pages.\<close>

fun erase_pages :: "int \<Rightarrow> int list \<Rightarrow> disk \<Rightarrow> error + disk" where
  "erase_pages block [] d = Inr d"
| "erase_pages block (p # ps) d =
     and_then (set_page d block p PAGE_EMPTY) (erase_pages block ps)"

definition raw_erase_block :: "geometry \<Rightarrow> int \<Rightarrow> disk \<Rightarrow> error + (bool \<times> disk)" where
  "raw_erase_block g block d =
     check_block g block
       (and_then (erase_pages block (py_range 0 (pages_per_block g)) d) (\<lambda>d1.
        and_then (get_block d1 block) (\<lambda>blk.
          Inr (True,
               d1\<lparr>ftl := (ftl d1)(block \<mapsto> blk\<lparr>empty := pages_per_block g, dirty := 0\<rparr>),
                  block_erase_executed := block_erase_executed d1 + 1,
                  elapsed_time := elapsed_time d1 + erase_block_time g\<rparr>))))"

subsection \<open>The naive write policy\<close>

text \<open>The loop of \<^verbatim>\<open>BaseNANDDisk.full_block_write_policy\<close> over the blocks; the empty
  list is the \<^verbatim>\<open>return False\<close> after the loop.\<close>

fun naive_scan :: "geometry \<Rightarrow> int \<Rightarrow> int \<Rightarrow> int list \<Rightarrow> disk \<Rightarrow> error + (bool \<times> disk)" where
  "naive_scan g block page [] d = Inr (False, d)"
| "naive_scan g block page (b # bs) d =
     (if b = block then naive_scan g block page bs d
      else and_then (get_block d b) (\<lambda>blk.
        if empty blk > 0 then
          and_then (get_empty_page g b d) (\<lambda>p.
          and_then (set_page d block page PAGE_DIRTY) (\<lambda>d1.
          and_then (set_page d1 b p PAGE_IN_USE) (\<lambda>d2.
          and_then (add_dirty d2 block 1) (\<lambda>d3.
          and_then (add_empty d3 b (- 1)) (\<lambda>d4.
            Inr (True, d4\<lparr>elapsed_time := elapsed_time d4 + write_page_time g,
                           page_write_executed := page_write_executed d4 + 1\<rparr>))))))
        else naive_scan g block page bs d))"

definition naive_full_block_write_policy ::
  "geometry \<Rightarrow> int \<Rightarrow> int \<Rightarrow> disk \<Rightarrow> error + (bool \<times> disk)" where
  "naive_full_block_write_policy g block page d =
     check_block g block (check_page g page
       (naive_scan g block page (py_range 0 (total_blocks g)) d))"

subsection \<open>The in-place write policy\<close>

text \<open>
  \<^verbatim>\<open>WritePolicyInPlace.full_block_write_policy\<close> acts on the disk it is mixed into through
  \<^verbatim>\<open>self.raw_read_page\<close>, \<^verbatim>\<open>self.raw_erase_block\<close> and \<^verbatim>\<open>self.raw_write_page\<close>, which are
  taken to be the methods of \<^verbatim>\<open>BaseNANDDisk\<close>. The results of the erase and of the writes
  are discarded, as in the source; the result of a read is unpacked as \<^verbatim>\<open>res, status\<close>.
\<close>

text \<open>The two results that the spec gives \<^verbatim>\<open>raw_read_page\<close>.\<close>

datatype read_status = Success | NoData

text \<open>
  Modelled from the spec: the disk class that \<^verbatim>\<open>WritePolicyInPlace\<close> is written for (the
  one with \<^verbatim>\<open>WritePolicyInterface\<close>, in the package \<^verbatim>\<open>simulator.NAND\<close>) is not among the
  sources. Its \<^verbatim>\<open>raw_read_page\<close> returns a pair \<^verbatim>\<open>(res, status)\<close>, where
  \<^verbatim>\<open>BaseNANDDisk.raw_read_page\<close> returns a truth value only. By the spec (4.1)
  \<^verbatim>\<open>raw_read_page\<close> returns Success for a page in use, with the time and the counter
  updated, and NoData otherwise, which is what \<^verbatim>\<open>BaseNANDDisk.raw_read_page\<close> does with
  \<open>True\<close> and \<open>False\<close>: the pair is that truth value with the spec's result. The policy
  tests \<^verbatim>\<open>res\<close> and never uses \<^verbatim>\<open>status\<close>.
\<close>

definition raw_read_page_with_status ::
  "geometry \<Rightarrow> int \<Rightarrow> int \<Rightarrow> disk \<Rightarrow> error + ((bool \<times> read_status) \<times> disk)" where
  "raw_read_page_with_status g block page d =
     and_then (raw_read_page g block page d)
       (\<lambda>(res, d1). Inr ((res, if res then Success else NoData), d1))"

text \<open>
  Step 1 builds \<^verbatim>\<open>temp_block\<close>, step 3 writes the pages it marks in use. The write is
  the disk's own \<^verbatim>\<open>raw_write_page\<close>, which is passed in as \<open>rw\<close>.
\<close>

fun in_place_step1 ::
  "geometry \<Rightarrow> int \<Rightarrow> int list \<Rightarrow> (int \<rightharpoonup> page_status) \<Rightarrow> disk \<Rightarrow>
   error + ((int \<rightharpoonup> page_status) \<times> disk)" where
  "in_place_step1 g block [] temp_block d = Inr (temp_block, d)"
| "in_place_step1 g block (p # ps) temp_block d =
     and_then (raw_read_page_with_status g block p d) (\<lambda>((res, status), d1).
       in_place_step1 g block ps
         (temp_block(p \<mapsto> (if res then PAGE_IN_USE else PAGE_EMPTY))) d1)"

fun in_place_step3 ::
  "(geometry \<Rightarrow> int \<Rightarrow> int \<Rightarrow> disk \<Rightarrow> error + (bool \<times> disk)) \<Rightarrow>
   geometry \<Rightarrow> int \<Rightarrow> int list \<Rightarrow> (int \<rightharpoonup> page_status) \<Rightarrow> disk \<Rightarrow> error + disk" where
  "in_place_step3 rw g block [] temp_block d = Inr d"
| "in_place_step3 rw g block (p # ps) temp_block d =
     (case temp_block p of
        None \<Rightarrow> Inl KeyError
      | Some s \<Rightarrow>
          if s = PAGE_IN_USE
          then and_then (rw g block p d) (\<lambda>(res, d1). in_place_step3 rw g block ps temp_block d1)
          else in_place_step3 rw g block ps temp_block d)"

definition in_place_full_block_write_policy ::
  "(geometry \<Rightarrow> int \<Rightarrow> int \<Rightarrow> disk \<Rightarrow> error + (bool \<times> disk)) \<Rightarrow>
   geometry \<Rightarrow> int \<Rightarrow> int \<Rightarrow> disk \<Rightarrow> error + (bool \<times> disk)" where
  "in_place_full_block_write_policy rw g block page d =
     check_block g block (check_page g page
       (and_then (set_page d block page PAGE_DIRTY) (\<lambda>d1.
        and_then (in_place_step1 g block (py_range 0 (pages_per_block g)) Map.empty d1)
          (\<lambda>(temp_block, d2).
        and_then (raw_erase_block g block d2) (\<lambda>(res, d3).
        and_then (in_place_step3 rw g block (py_range 0 (pages_per_block g))
                    (temp_block(page \<mapsto> PAGE_IN_USE)) d3) (\<lambda>d4.
          Inr (True, d4)))))))"

subsection \<open>Writing\<close>

text \<open>The body of \<^verbatim>\<open>raw_write_page\<close>, with \<^verbatim>\<open>self.full_block_write_policy\<close> passed in
  as \<open>fbwp\<close>.\<close>

definition raw_write_page_body ::
  "(geometry \<Rightarrow> int \<Rightarrow> int \<Rightarrow> disk \<Rightarrow> error + (bool \<times> disk)) \<Rightarrow>
   geometry \<Rightarrow> int \<Rightarrow> int \<Rightarrow> disk \<Rightarrow> error + (bool \<times> disk)" where
  "raw_write_page_body fbwp g block page d =
     check_block g block (check_page g page
       (and_then (get_page d block page) (\<lambda>s.
          if s = PAGE_EMPTY then
            and_then (set_page d block page PAGE_IN_USE) (\<lambda>d1.
            and_then (add_empty d1 block (- 1)) (\<lambda>d2.
              Inr (True, d2\<lparr>elapsed_time := elapsed_time d2 + write_page_time g,
                             page_write_executed := page_write_executed d2 + 1\<rparr>)))
          else if s = PAGE_IN_USE then
            and_then (get_block d block) (\<lambda>blk.
              if empty blk \<le> 0 then
                and_then (fbwp g block page d) (\<lambda>(res, d1).
                  if res then Inr (True, d1)
                  else Inr (False, d1\<lparr>page_write_failed := page_write_failed d1 + 1\<rparr>))
              else
                and_then (get_empty_page g block d) (\<lambda>newpage.
                and_then (set_page d block page PAGE_DIRTY) (\<lambda>d1.
                and_then (set_page d1 block newpage PAGE_IN_USE) (\<lambda>d2.
                and_then (add_empty d2 block (- 1)) (\<lambda>d3.
                and_then (add_dirty d3 block 1) (\<lambda>d4.
                  Inr (True, d4\<lparr>elapsed_time := elapsed_time d4 + write_page_time g,
                                 page_write_executed := page_write_executed d4 + 1\<rparr>)))))))
          else Inr (False, d))))"

text \<open>
  \<^verbatim>\<open>raw_write_page\<close> calls the policy, and the in-place policy calls \<^verbatim>\<open>raw_write_page\<close>.
  The first argument bounds how deep these calls may nest: a call that would go deeper
  is the interpreter's \<open>RecursionError\<close>.
\<close>

definition policy_with ::
  "policy \<Rightarrow> (geometry \<Rightarrow> int \<Rightarrow> int \<Rightarrow> disk \<Rightarrow> error + (bool \<times> disk)) \<Rightarrow>
   geometry \<Rightarrow> int \<Rightarrow> int \<Rightarrow> disk \<Rightarrow> error + (bool \<times> disk)" where
  "policy_with pol rw =
     (case pol of Naive \<Rightarrow> naive_full_block_write_policy
                | InPlace \<Rightarrow> in_place_full_block_write_policy rw)"

primrec raw_write_page ::
  "nat \<Rightarrow> policy \<Rightarrow> geometry \<Rightarrow> int \<Rightarrow> int \<Rightarrow> disk \<Rightarrow> error + (bool \<times> disk)" where
  "raw_write_page 0 pol = (\<lambda>g block page d. Inl RecursionError)"
| "raw_write_page (Suc n) pol = raw_write_page_body (policy_with pol (raw_write_page n pol))"

definition full_block_write_policy ::
  "nat \<Rightarrow> policy \<Rightarrow> geometry \<Rightarrow> int \<Rightarrow> int \<Rightarrow> disk \<Rightarrow> error + (bool \<times> disk)" where
  "full_block_write_policy n pol = policy_with pol (raw_write_page n pol)"

definition host_write_page ::
  "nat \<Rightarrow> policy \<Rightarrow> geometry \<Rightarrow> int \<Rightarrow> int \<Rightarrow> disk \<Rightarrow> error + (bool \<times> disk)" where
  "host_write_page n pol g block page d =
     check_block g block (check_page g page
       (and_then (raw_write_page n pol g block page d) (\<lambda>(res, d1).
          if res
          then Inr (True, d1\<lparr>host_page_write_request := host_page_write_request d1 + 1\<rparr>)
          else Inr (False, d1))))"

subsection \<open>Statistical utilities\<close>

text \<open>
  \<^verbatim>\<open>write_amplification\<close> and \<^verbatim>\<open>failure_rate\<close> compute with \<^verbatim>\<open>decimal.Decimal\<close> in the
  context of the thread, whose precision the constructor sets to \<^verbatim>\<open>DECIMAL_PRECISION\<close> and
  whose rounding (\<^verbatim>\<open>ROUND_HALF_EVEN\<close>) and traps (\<^verbatim>\<open>DivisionByZero\<close>, \<^verbatim>\<open>InvalidOperation\<close>,
  \<^verbatim>\<open>Overflow\<close>) are the defaults. \<^verbatim>\<open>Decimal(n)\<close> of an integer is exact. A product or a
  quotient is the exact result rounded to the precision, counted in significant digits.
  A \<^verbatim>\<open>Decimal\<close> is modelled by its value: an integer where the value is one, a rational for
  a quotient. The bounds of the context on the exponent (\<^verbatim>\<open>Emax\<close> = 999999) are not
  modelled.
\<close>

definition DECIMAL_PRECISION :: nat where
  "DECIMAL_PRECISION = 12"

text \<open>The number of decimal digits of a natural number.\<close>

fun digits :: "nat \<Rightarrow> nat" where
  "digits n = (if n < 10 then 1 else Suc (digits (n div 10)))"

declare digits.simps [simp del]

text \<open>The nearest integer, a tie going to the even one.\<close>

definition round_half_even :: "rat \<Rightarrow> int" where
  "round_half_even x =
     (let f = \<lfloor>x\<rfloor>; r = x - of_int f
      in if r < 1 / 2 then f else if 1 / 2 < r then f + 1 else if even f then f else f + 1)"

text \<open>The adjusted exponent of \<open>a / b\<close> for \<open>a\<close> and \<open>b\<close> other than 0: the \<open>e\<close> with
  \<open>10 powi e \<le> \<bar>a / b\<bar>\<close> and \<open>\<bar>a / b\<bar> < 10 powi (e + 1)\<close>.\<close>

definition adjusted :: "int \<Rightarrow> int \<Rightarrow> int" where
  "adjusted a b =
     (let k = int (digits (nat \<bar>a\<bar>)) - int (digits (nat \<bar>b\<bar>))
      in if of_int \<bar>b\<bar> * (10::rat) powi k \<le> of_int \<bar>a\<bar> then k else k - 1)"

text \<open>\<open>a / b\<close> rounded to \<open>prec\<close> significant digits, for \<open>b\<close> other than 0.\<close>

definition round_quotient :: "nat \<Rightarrow> int \<Rightarrow> int \<Rightarrow> rat" where
  "round_quotient prec a b =
     (if a = 0 then 0
      else let s = (10::rat) powi (int prec - 1 - adjusted a b)
           in of_int (round_half_even (of_int a / of_int b * s)) / s)"

text \<open>An integer rounded to \<open>prec\<close> significant digits, which is an integer.\<close>

definition round_int :: "nat \<Rightarrow> int \<Rightarrow> int" where
  "round_int prec n =
     (if digits (nat \<bar>n\<bar>) \<le> prec then n
      else let k = digits (nat \<bar>n\<bar>) - prec
           in round_half_even (of_int n / 10 ^ k) * 10 ^ k)"

text \<open>\<^verbatim>\<open>Decimal(a) * Decimal(b)\<close> and \<^verbatim>\<open>x / Decimal(b)\<close> for a \<^verbatim>\<open>Decimal\<close> \<open>x\<close> of integer value \<open>a\<close>.
  A zero divisor raises \<^verbatim>\<open>InvalidOperation\<close> when the dividend is zero too and
  \<^verbatim>\<open>DivisionByZero\<close> otherwise.\<close>

definition decimal_mul :: "nat \<Rightarrow> int \<Rightarrow> int \<Rightarrow> int" where
  "decimal_mul prec a b = round_int prec (a * b)"

definition decimal_div :: "nat \<Rightarrow> int \<Rightarrow> int \<Rightarrow> error + rat" where
  "decimal_div prec a b =
     (if b = 0 then (if a = 0 then Inl InvalidOperation else Inl DivisionByZero)
      else Inr (round_quotient prec a b))"

definition write_amplification :: "nat \<Rightarrow> disk \<Rightarrow> error + rat" where
  "write_amplification prec d =
     decimal_div prec (page_write_executed d) (host_page_write_request d)"

definition failure_rate :: "nat \<Rightarrow> disk \<Rightarrow> error + rat" where
  "failure_rate prec d =
     decimal_div prec (decimal_mul prec (page_write_failed d) 100) (page_write_executed d)"

text \<open>What a call gives back to its caller: the value after \<^verbatim>\<open>return\<close>, or the exception.
  The disk is the object itself and is not part of it.\<close>

definition returned :: "error + ('a \<times> disk) \<Rightarrow> error + 'a" where
  "returned r = (case r of Inl e \<Rightarrow> Inl e | Inr (v, d) \<Rightarrow> Inr v)"

subsection \<open>Correctly rounded results\<close>

text \<open>
  What the arithmetic of \<^verbatim>\<open>decimal\<close> specifies for the result of an operation, stated
  without the computation: the exact value \<open>x\<close> rounded to \<open>prec\<close> significant digits, a tie
  going to the even digit (\<^verbatim>\<open>ROUND_HALF_EVEN\<close>). This is the specification that claim C7, as
  amended, compares \<^verbatim>\<open>round_quotient\<close> and \<^verbatim>\<open>round_int\<close> with.

  \<open>nearest_even y c\<close>: the integer \<open>c\<close> is nearest to \<open>y\<close>, and it is the even one when \<open>y\<close> is
  halfway between two integers.

  \<open>rounded_at prec x e c r\<close>: \<open>e\<close> is the exponent of the first significant digit of \<open>x\<close>, the
  coefficient \<open>c\<close> is \<open>x\<close> scaled to \<open>prec\<close> digits before the point and rounded, and \<open>r\<close> is
  the value of that coefficient. Zero is rounded to zero.
\<close>

definition nearest_even :: "rat \<Rightarrow> int \<Rightarrow> bool" where
  "nearest_even y c \<longleftrightarrow>
     \<bar>of_int c - y\<bar> < 1 / 2 \<or> (\<bar>of_int c - y\<bar> = 1 / 2 \<and> even c)"

definition rounded_at :: "nat \<Rightarrow> rat \<Rightarrow> int \<Rightarrow> int \<Rightarrow> rat \<Rightarrow> bool" where
  "rounded_at prec x e c r \<longleftrightarrow>
     (if x = 0 then r = 0
      else 10 powi e \<le> \<bar>x\<bar> \<and> \<bar>x\<bar> < 10 powi (e + 1) \<and>
           nearest_even (x * 10 powi (int prec - 1 - e)) c \<and>
           r = of_int c * 10 powi (e + 1 - int prec))"

subsection \<open>Consistency of the cached counters\<close>

text \<open>The number of pages of a block, among those of \<^verbatim>\<open>range(0, pages_per_block)\<close>, that have
  a given status.\<close>

definition count_pages :: "geometry \<Rightarrow> block \<Rightarrow> page_status \<Rightarrow> int" where
  "count_pages g blk s =
     int (length (filter (\<lambda>p. pages blk p = Some s) (py_range 0 (pages_per_block g))))"

text \<open>A block is consistent when each of its pages has a status and its two cached counters
  are the numbers of its empty and of its dirty pages.\<close>

definition block_inv :: "geometry \<Rightarrow> block \<Rightarrow> bool" where
  "block_inv g blk \<longleftrightarrow>
     list_all (\<lambda>p. pages blk p \<noteq> None) (py_range 0 (pages_per_block g)) \<and>
     empty blk = count_pages g blk PAGE_EMPTY \<and>
     dirty blk = count_pages g blk PAGE_DIRTY"

definition disk_inv :: "geometry \<Rightarrow> disk \<Rightarrow> bool" where
  "disk_inv g d \<longleftrightarrow>
     list_all (\<lambda>b. case ftl d b of None \<Rightarrow> False | Some blk \<Rightarrow> block_inv g blk)
       (py_range 0 (total_blocks g))"

subsection \<open>Reachable disks\<close>

text \<open>
  The disks a driver can reach: the constructor's, and from a reachable disk the disk that
  a call with coordinates in range leaves behind when it returns. The first argument is
  the nesting bound of \<open>raw_write_page\<close>, the second the write policy of the disk's class.
  The write policy is itself a method of the disk; a direct call of the naive policy is
  taken into account on a page in use, which is how \<^verbatim>\<open>raw_write_page\<close> calls it.
\<close>

inductive reachable :: "nat \<Rightarrow> policy \<Rightarrow> geometry \<Rightarrow> disk \<Rightarrow> bool"
  for n :: nat and pol :: policy and g :: geometry where
  constructed: "reachable n pol g (BaseNANDDisk_init g)"
| raw_write:
    "reachable n pol g d \<Longrightarrow> 0 \<le> block \<Longrightarrow> block < total_blocks g \<Longrightarrow>
     0 \<le> page \<Longrightarrow> page < pages_per_block g \<Longrightarrow>
     raw_write_page n pol g block page d = Inr (res, d') \<Longrightarrow> reachable n pol g d'"
| host_write:
    "reachable n pol g d \<Longrightarrow> 0 \<le> block \<Longrightarrow> block < total_blocks g \<Longrightarrow>
     0 \<le> page \<Longrightarrow> page < pages_per_block g \<Longrightarrow>
     host_write_page n pol g block page d = Inr (res, d') \<Longrightarrow> reachable n pol g d'"
| raw_read:
    "reachable n pol g d \<Longrightarrow> 0 \<le> block \<Longrightarrow> block < total_blocks g \<Longrightarrow>
     0 \<le> page \<Longrightarrow> page < pages_per_block g \<Longrightarrow>
     raw_read_page g block page d = Inr (res, d') \<Longrightarrow> reachable n pol g d'"
| raw_erase:
    "reachable n pol g d \<Longrightarrow> 0 \<le> block \<Longrightarrow> block < total_blocks g \<Longrightarrow>
     raw_erase_block g block d = Inr (res, d') \<Longrightarrow> reachable n pol g d'"
| relocate:
    "reachable n pol g d \<Longrightarrow> 0 \<le> block \<Longrightarrow> block < total_blocks g \<Longrightarrow>
     0 \<le> page \<Longrightarrow> page < pages_per_block g \<Longrightarrow>
     (pol = Naive \<longrightarrow> get_page d block page = Inr PAGE_IN_USE) \<Longrightarrow>
     full_block_write_policy n pol g block page d = Inr (res, d') \<Longrightarrow> reachable n pol g d'"

subsection \<open>What the operations compute\<close>

text \<open>Replacing one block of the disk.\<close>

definition upd_block :: "disk \<Rightarrow> int \<Rightarrow> block \<Rightarrow> disk" where
  "upd_block d b blk = d\<lparr>ftl := (ftl d)(b \<mapsto> blk)\<rparr>"

text \<open>A block after \<^verbatim>\<open>raw_erase_block\<close>.\<close>

definition erased_block :: "geometry \<Rightarrow> block \<Rightarrow> block" where
  "erased_block g blk =
     blk\<lparr>pages := fold (\<lambda>p m. m(p \<mapsto> PAGE_EMPTY)) (py_range 0 (pages_per_block g)) (pages blk),
         empty := pages_per_block g, dirty := 0\<rparr>"

text \<open>The \<^verbatim>\<open>temp_block\<close> that step 1 builds from a block, and the block that step 3 leaves
  when every page it writes is empty.\<close>

definition temp_block_of ::
  "block \<Rightarrow> int list \<Rightarrow> (int \<rightharpoonup> page_status) \<Rightarrow> (int \<rightharpoonup> page_status)" where
  "temp_block_of blk ps t =
     fold (\<lambda>q t. t(q \<mapsto> (if pages blk q = Some PAGE_IN_USE then PAGE_IN_USE else PAGE_EMPTY)))
       ps t"

definition rewritten_block :: "(int \<rightharpoonup> page_status) \<Rightarrow> int list \<Rightarrow> block \<Rightarrow> block" where
  "rewritten_block t ps blk =
     fold (\<lambda>q B. if t q = Some PAGE_IN_USE
                  then B\<lparr>pages := (pages B)(q \<mapsto> PAGE_IN_USE), empty := empty B - 1\<rparr>
                  else B) ps blk"

text \<open>
  The effect of the in-place policy on the target block: the \<^verbatim>\<open>temp_block\<close> after the
  in-memory change, the block after step 3, the number of pages step 1 reads with success
  and the number of pages step 3 writes.
\<close>

definition in_place_temp_block :: "geometry \<Rightarrow> block \<Rightarrow> int \<Rightarrow> (int \<rightharpoonup> page_status)" where
  "in_place_temp_block g blk page =
     (temp_block_of (blk\<lparr>pages := (pages blk)(page \<mapsto> PAGE_DIRTY)\<rparr>)
        (py_range 0 (pages_per_block g)) Map.empty)(page \<mapsto> PAGE_IN_USE)"

definition in_place_block :: "geometry \<Rightarrow> block \<Rightarrow> int \<Rightarrow> block" where
  "in_place_block g blk page =
     rewritten_block (in_place_temp_block g blk page) (py_range 0 (pages_per_block g))
       (erased_block g (blk\<lparr>pages := (pages blk)(page \<mapsto> PAGE_DIRTY)\<rparr>))"

definition in_place_reads :: "geometry \<Rightarrow> block \<Rightarrow> int \<Rightarrow> int" where
  "in_place_reads g blk page =
     int (length (filter (\<lambda>q. q \<noteq> page \<and> pages blk q = Some PAGE_IN_USE)
                    (py_range 0 (pages_per_block g))))"

definition in_place_writes :: "geometry \<Rightarrow> block \<Rightarrow> int \<Rightarrow> int" where
  "in_place_writes g blk page =
     int (length (filter (\<lambda>q. q = page \<or> pages blk q = Some PAGE_IN_USE)
                    (py_range 0 (pages_per_block g))))"

subsection \<open>Example disks\<close>

text \<open>A subclass may override the class attributes. The small disk has two blocks of two
  pages, with the timings of the base class.\<close>

definition small_geometry :: geometry where
  "small_geometry =
     \<lparr>total_blocks = 2, pages_per_block = 2, write_page_time = 250,
      read_page_time = 25, erase_block_time = 1500\<rparr>"

text \<open>The small disk after \<^verbatim>\<open>raw_write_page(block=0, page=0)\<close> on the new disk.\<close>

definition small_disk_1 :: disk where
  "small_disk_1 =
     \<lparr>elapsed_time = 250, host_page_write_request = 0, page_write_executed = 1,
      page_write_failed = 0, host_page_read_request = 0, page_read_executed = 0,
      block_erase_executed = 0,
      ftl = [0 \<mapsto> \<lparr>pages = [0 \<mapsto> PAGE_IN_USE, 1 \<mapsto> PAGE_EMPTY], empty = 1, dirty = 0\<rparr>,
             1 \<mapsto> \<lparr>pages = [0 \<mapsto> PAGE_EMPTY, 1 \<mapsto> PAGE_EMPTY], empty = 2, dirty = 0\<rparr>]\<rparr>"

text \<open>The small disk after \<^verbatim>\<open>raw_write_page(block=0, page=0)\<close> and
  \<^verbatim>\<open>raw_write_page(block=0, page=1)\<close>: block 0 is full of pages in use.\<close>

definition small_disk_2 :: disk where
  "small_disk_2 =
     \<lparr>elapsed_time = 500, host_page_write_request = 0, page_write_executed = 2,
      page_write_failed = 0, host_page_read_request = 0, page_read_executed = 0,
      block_erase_executed = 0,
      ftl = [0 \<mapsto> \<lparr>pages = [0 \<mapsto> PAGE_IN_USE, 1 \<mapsto> PAGE_IN_USE], empty = 0, dirty = 0\<rparr>,
             1 \<mapsto> \<lparr>pages = [0 \<mapsto> PAGE_EMPTY, 1 \<mapsto> PAGE_EMPTY], empty = 2, dirty = 0\<rparr>]\<rparr>"

text \<open>The small disk with the in-place policy after \<^verbatim>\<open>host_write_page\<close> on (0, 0), on (0, 1)
  and on (0, 0) again: the third write erases block 0 and writes both pages back.\<close>

definition small_disk_3 :: disk where
  "small_disk_3 =
     \<lparr>elapsed_time = 2525, host_page_write_request = 3, page_write_executed = 4,
      page_write_failed = 0, host_page_read_request = 0, page_read_executed = 1,
      block_erase_executed = 1,
      ftl = [0 \<mapsto> \<lparr>pages = [0 \<mapsto> PAGE_IN_USE, 1 \<mapsto> PAGE_IN_USE], empty = 0, dirty = 0\<rparr>,
             1 \<mapsto> \<lparr>pages = [0 \<mapsto> PAGE_EMPTY, 1 \<mapsto> PAGE_EMPTY], empty = 2, dirty = 0\<rparr>]\<rparr>"

text \<open>A disk of two blocks of one page, and that disk after \<^verbatim>\<open>host_write_page(block=0, page=0)\<close>
  twice with the naive policy: page (0, 0) is dirty, page (1, 0) is in use, both blocks are
  full.\<close>

definition one_page_geometry :: geometry where
  "one_page_geometry =
     \<lparr>total_blocks = 2, pages_per_block = 1, write_page_time = 250,
      read_page_time = 25, erase_block_time = 1500\<rparr>"

definition one_page_disk_full :: disk where
  "one_page_disk_full =
     \<lparr>elapsed_time = 500, host_page_write_request = 2, page_write_executed = 2,
      page_write_failed = 0, host_page_read_request = 0, page_read_executed = 0,
      block_erase_executed = 0,
      ftl = [0 \<mapsto> \<lparr>pages = [0 \<mapsto> PAGE_DIRTY], empty = 0, dirty = 1\<rparr>,
             1 \<mapsto> \<lparr>pages = [0 \<mapsto> PAGE_IN_USE], empty = 0, dirty = 0\<rparr>]\<rparr>"

text \<open>The disk of two blocks of one page after \<^verbatim>\<open>host_write_page(block=0, page=0)\<close> and then
  \<open>k\<close> rounds of \<^verbatim>\<open>raw_erase_block(block=0)\<close> and \<^verbatim>\<open>host_write_page(block=0, page=0)\<close>.\<close>

definition cycled_disk :: "nat \<Rightarrow> disk" where
  "cycled_disk k =
     \<lparr>elapsed_time = 1750 * int k + 250, host_page_write_request = int k + 1,
      page_write_executed = int k + 1, page_write_failed = 0, host_page_read_request = 0,
      page_read_executed = 0, block_erase_executed = int k,
      ftl = [0 \<mapsto> \<lparr>pages = [0 \<mapsto> PAGE_IN_USE], empty = 0, dirty = 0\<rparr>,
             1 \<mapsto> \<lparr>pages = [0 \<mapsto> PAGE_EMPTY], empty = 1, dirty = 0\<rparr>]\<rparr>"

text \<open>That disk after 4095 rounds and \<^verbatim>\<open>raw_write_page(block=1, page=0)\<close>: 4097 pages written
  for 4096 requested, a ratio of 1.000244140625, halfway between two numbers of 12 digits.\<close>

definition amplification_tie_disk :: disk where
  "amplification_tie_disk =
     \<lparr>elapsed_time = 7166750, host_page_write_request = 4096,
      page_write_executed = 4097, page_write_failed = 0, host_page_read_request = 0,
      page_read_executed = 0, block_erase_executed = 4095,
      ftl = [0 \<mapsto> \<lparr>pages = [0 \<mapsto> PAGE_IN_USE], empty = 0, dirty = 0\<rparr>,
             1 \<mapsto> \<lparr>pages = [0 \<mapsto> PAGE_IN_USE], empty = 0, dirty = 0\<rparr>]\<rparr>"

text \<open>That disk after 262142 rounds, \<^verbatim>\<open>host_write_page(block=1, page=0)\<close> and, with the naive
  policy, \<^verbatim>\<open>host_write_page(block=0, page=0)\<close>, which fails: one failure for 262144 pages
  written, a rate of 0.0003814697265625, halfway between two numbers of 12 digits.\<close>

definition failure_tie_disk :: disk where
  "failure_tie_disk =
     \<lparr>elapsed_time = 458749000, host_page_write_request = 262144,
      page_write_executed = 262144, page_write_failed = 1, host_page_read_request = 0,
      page_read_executed = 0, block_erase_executed = 262142,
      ftl = [0 \<mapsto> \<lparr>pages = [0 \<mapsto> PAGE_IN_USE], empty = 0, dirty = 0\<rparr>,
             1 \<mapsto> \<lparr>pages = [0 \<mapsto> PAGE_IN_USE], empty = 0, dirty = 0\<rparr>]\<rparr>"

section \<open>Properties\<close>

lemma and_then_Inr [simp]: "and_then (Inr x) f = f x"
  by (simp add: and_then_def)

lemma and_then_Inl [simp]: "and_then (Inl e) f = Inl e"
  by (simp add: and_then_def)

lemma set_py_range [simp]: "set (py_range a b) = {p. a \<le> p \<and> p < b}"
  by (auto simp: py_range_def)

lemma distinct_py_range [simp]: "distinct (py_range a b)"
  by (simp add: py_range_def)

lemma length_py_range [simp]: "length (py_range 0 n) = nat n"
  by (simp add: py_range_def)

lemma py_range_split:
  "a \<le> p \<Longrightarrow> p < b \<Longrightarrow> py_range a b = py_range a p @ p # py_range (p + 1) b"
  unfolding py_range_def using upto_split3 [of a p "b - 1"] by simp

lemma get_block_Some [simp]: "ftl d b = Some blk \<Longrightarrow> get_block d b = Inr blk"
  by (simp add: get_block_def)

lemma get_page_Some: "ftl d b = Some blk \<Longrightarrow> pages blk p = Some s \<Longrightarrow> get_page d b p = Inr s"
  by (simp add: get_page_def)

lemma ftl_upd_block [simp]: "ftl (upd_block d b blk) = (ftl d)(b \<mapsto> blk)"
  by (simp add: upd_block_def)

lemma upd_block_counters [simp]:
  "elapsed_time (upd_block d b blk) = elapsed_time d"
  "host_page_write_request (upd_block d b blk) = host_page_write_request d"
  "page_write_executed (upd_block d b blk) = page_write_executed d"
  "page_write_failed (upd_block d b blk) = page_write_failed d"
  "host_page_read_request (upd_block d b blk) = host_page_read_request d"
  "page_read_executed (upd_block d b blk) = page_read_executed d"
  "block_erase_executed (upd_block d b blk) = block_erase_executed d"
  by (simp_all add: upd_block_def)

lemma upd_block_twice [simp]: "upd_block (upd_block d b x) b y = upd_block d b y"
  by (simp add: upd_block_def)

lemma upd_block_same: "ftl d b = Some blk \<Longrightarrow> upd_block d b blk = d"
  by (simp add: upd_block_def map_upd_triv)

lemma set_page_Some:
  "ftl d b = Some blk \<Longrightarrow>
   set_page d b p s = Inr (upd_block d b (blk\<lparr>pages := (pages blk)(p \<mapsto> s)\<rparr>))"
  by (simp add: set_page_def upd_block_def)

lemma add_empty_Some:
  "ftl d b = Some blk \<Longrightarrow> add_empty d b k = Inr (upd_block d b (blk\<lparr>empty := empty blk + k\<rparr>))"
  by (simp add: add_empty_def upd_block_def)

lemma add_dirty_Some:
  "ftl d b = Some blk \<Longrightarrow> add_dirty d b k = Inr (upd_block d b (blk\<lparr>dirty := dirty blk + k\<rparr>))"
  by (simp add: add_dirty_def upd_block_def)

lemma fold_upd_lookup:
  "fold (\<lambda>p m. m(p \<mapsto> v)) ps m q = (if q \<in> set ps then Some v else m q)"
  by (induction ps arbitrary: m) auto

lemma erase_pages_Some:
  "ftl d b = Some blk \<Longrightarrow>
   erase_pages b ps d =
     Inr (upd_block d b (blk\<lparr>pages := fold (\<lambda>p m. m(p \<mapsto> PAGE_EMPTY)) ps (pages blk)\<rparr>))"
proof (induction ps arbitrary: d blk)
  case Nil
  then show ?case by (simp add: upd_block_same)
next
  case (Cons p ps)
  let ?blk1 = "blk\<lparr>pages := (pages blk)(p \<mapsto> PAGE_EMPTY)\<rparr>"
  have "ftl (upd_block d b ?blk1) b = Some ?blk1" by simp
  from Cons.IH [OF this] Cons.prems show ?case by (simp add: set_page_Some)
qed

lemma count_change_one:
  "distinct ps \<Longrightarrow> p \<in> set ps \<Longrightarrow> (\<And>q. q \<noteq> p \<Longrightarrow> P q = Q q) \<Longrightarrow>
   int (length (filter P ps)) =
   int (length (filter Q ps)) + (if P p then 1 else 0) - (if Q p then 1 else 0)"
proof (induction ps)
  case Nil
  then show ?case by simp
next
  case (Cons a ps)
  show ?case
  proof (cases "a = p")
    case True
    with Cons.prems have "p \<notin> set ps" by simp
    with Cons.prems(3) have "filter P ps = filter Q ps"
      by (intro filter_cong) (auto, metis+)
    with True show ?thesis by simp
  next
    case False
    with Cons.prems have "distinct ps" "p \<in> set ps" by auto
    from Cons.IH [OF this Cons.prems(3)] False Cons.prems(3) [of a] show ?thesis
      by (auto split: if_splits)
  qed
qed

lemma count_upd:
  "distinct ps \<Longrightarrow> p \<in> set ps \<Longrightarrow>
   int (length (filter (\<lambda>q. (m(p \<mapsto> s)) q = Some t) ps)) =
   int (length (filter (\<lambda>q. m q = Some t) ps)) + (if s = t then 1 else 0)
     - (if m p = Some t then 1 else 0)"
  using count_change_one [of ps p "\<lambda>q. (m(p \<mapsto> s)) q = Some t" "\<lambda>q. m q = Some t"]
  by simp

lemma count_pages_upd:
  "0 \<le> p \<Longrightarrow> p < pages_per_block g \<Longrightarrow>
   count_pages g (blk\<lparr>pages := (pages blk)(p \<mapsto> s)\<rparr>) t =
   count_pages g blk t + (if s = t then 1 else 0) - (if pages blk p = Some t then 1 else 0)"
  unfolding count_pages_def
  using count_upd [of "py_range 0 (pages_per_block g)" p "pages blk" s t] by simp

lemma count_pages_cong:
  "(\<And>p. 0 \<le> p \<Longrightarrow> p < pages_per_block g \<Longrightarrow> pages blk p = pages blk' p) \<Longrightarrow>
   count_pages g blk s = count_pages g blk' s"
  unfolding count_pages_def
  by (rule arg_cong [where f = "\<lambda>x. int (length x)"], rule filter_cong) auto

lemma count_pages_total:
  assumes "list_all (\<lambda>p. pages blk p \<noteq> None) (py_range 0 (pages_per_block g))"
    and "0 \<le> pages_per_block g"
  shows "count_pages g blk PAGE_EMPTY + count_pages g blk PAGE_DIRTY
           + count_pages g blk PAGE_IN_USE = pages_per_block g"
proof -
  have "list_all (\<lambda>p. pages blk p \<noteq> None) ps \<Longrightarrow>
        int (length (filter (\<lambda>p. pages blk p = Some PAGE_EMPTY) ps))
        + int (length (filter (\<lambda>p. pages blk p = Some PAGE_DIRTY) ps))
        + int (length (filter (\<lambda>p. pages blk p = Some PAGE_IN_USE) ps)) = int (length ps)" for ps
  proof (induction ps)
    case Nil
    then show ?case by simp
  next
    case (Cons a ps)
    then obtain s where "pages blk a = Some s" by auto
    with Cons show ?case by (cases s) auto
  qed
  from this [OF assms(1)] assms(2) show ?thesis by (simp add: count_pages_def)
qed

lemma block_inv_present:
  "block_inv g blk \<Longrightarrow> 0 \<le> p \<Longrightarrow> p < pages_per_block g \<Longrightarrow> \<exists>s. pages blk p = Some s"
  by (auto simp: block_inv_def list_all_iff)

lemma disk_inv_block:
  "disk_inv g d \<Longrightarrow> 0 \<le> b \<Longrightarrow> b < total_blocks g \<Longrightarrow> \<exists>blk. ftl d b = Some blk \<and> block_inv g blk"
  by (auto simp: disk_inv_def list_all_iff split: option.splits)

lemma disk_inv_upd_block:
  "disk_inv g d \<Longrightarrow> block_inv g blk \<Longrightarrow> disk_inv g (upd_block d b blk)"
  by (auto simp: disk_inv_def list_all_iff split: option.splits)

lemma disk_inv_ftl_cong: "ftl d' = ftl d \<Longrightarrow> disk_inv g d' = disk_inv g d"
  by (simp add: disk_inv_def)

lemma first_empty_split:
  "(\<And>q. q \<in> set pre \<Longrightarrow> \<exists>s. pg q = Some s \<and> s \<noteq> PAGE_EMPTY) \<Longrightarrow>
   pg p = Some PAGE_EMPTY \<Longrightarrow> first_empty pg (pre @ p # post) = Inr p"
proof (induction pre)
  case Nil
  then show ?case by simp
next
  case (Cons a pre)
  from Cons.prems(1) [of a] obtain s where "pg a = Some s" "s \<noteq> PAGE_EMPTY" by auto
  moreover have "first_empty pg (pre @ p # post) = Inr p"
  proof (rule Cons.IH)
    show "\<exists>s. pg q = Some s \<and> s \<noteq> PAGE_EMPTY" if "q \<in> set pre" for q
      using Cons.prems(1) [of q] that by simp
    show "pg p = Some PAGE_EMPTY" by (rule Cons.prems(2))
  qed
  ultimately show ?case by simp
qed

lemma least_nonneg_int:
  assumes "0 \<le> (p::int)" and "P p"
  shows "\<exists>m. 0 \<le> m \<and> m \<le> p \<and> P m \<and> (\<forall>q. 0 \<le> q \<and> q < m \<longrightarrow> \<not> P q)"
proof -
  define Q where "Q n = P (int n)" for n
  define k where "k = (LEAST n. Q n)"
  from assms have q: "Q (nat p)" by (simp add: Q_def)
  then have "Q k" unfolding k_def by (rule LeastI)
  then have 1: "P (int k)" by (simp add: Q_def)
  have "k \<le> nat p" unfolding k_def using q by (rule Least_le)
  with assms(1) have 2: "int k \<le> p" by linarith
  have 3: "\<not> P q" if "0 \<le> q" "q < int k" for q
  proof -
    from that have "nat q < k" by linarith
    then have "\<not> Q (nat q)" unfolding k_def by (rule not_less_Least)
    with that show ?thesis by (simp add: Q_def)
  qed
  have 0: "0 \<le> int k" by simp
  from 0 1 2 3 show ?thesis by blast
qed

lemma first_empty_least:
  assumes present: "list_all (\<lambda>p. pg p \<noteq> None) (py_range 0 n)"
    and p0: "0 \<le> p0" "p0 < n" "pg p0 = Some PAGE_EMPTY"
  shows "\<exists>p. first_empty pg (py_range 0 n) = Inr p \<and> 0 \<le> p \<and> p < n \<and>
             pg p = Some PAGE_EMPTY \<and> (\<forall>q. 0 \<le> q \<and> q < p \<longrightarrow> pg q \<noteq> Some PAGE_EMPTY)"
proof -
  from least_nonneg_int [of p0 "\<lambda>p. pg p = Some PAGE_EMPTY"] p0
  obtain p where p: "0 \<le> p" "p \<le> p0" "pg p = Some PAGE_EMPTY"
    "\<forall>q. 0 \<le> q \<and> q < p \<longrightarrow> pg q \<noteq> Some PAGE_EMPTY" by auto
  with p0 have lt: "p < n" by simp
  have split: "py_range 0 n = py_range 0 p @ p # py_range (p + 1) n"
    using p(1) lt by (rule py_range_split)
  have "\<exists>s. pg q = Some s \<and> s \<noteq> PAGE_EMPTY" if "q \<in> set (py_range 0 p)" for q
  proof -
    from that have q: "0 \<le> q" "q < p" by auto
    with lt present obtain s where "pg q = Some s" by (auto simp: list_all_iff)
    with p(4) q show ?thesis by auto
  qed
  then have "first_empty pg (py_range 0 p @ p # py_range (p + 1) n) = Inr p"
    using p(3) by (rule first_empty_split)
  with split p lt show ?thesis by auto
qed

lemma check_block_ok [simp]:
  "0 \<le> block \<Longrightarrow> block < total_blocks g \<Longrightarrow> check_block g block k = k"
  by (simp add: check_block_def)

lemma check_page_ok [simp]:
  "0 \<le> page \<Longrightarrow> page < pages_per_block g \<Longrightarrow> check_page g page k = k"
  by (simp add: check_page_def)

lemma get_empty_page_least:
  assumes "0 \<le> block" and "block < total_blocks g"
    and "ftl d block = Some blk" and "empty blk > 0"
    and "list_all (\<lambda>p. pages blk p \<noteq> None) (py_range 0 (pages_per_block g))"
    and "0 \<le> p0" and "p0 < pages_per_block g" and "pages blk p0 = Some PAGE_EMPTY"
  shows "\<exists>p. get_empty_page g block d = Inr p \<and> 0 \<le> p \<and> p < pages_per_block g \<and>
             pages blk p = Some PAGE_EMPTY \<and>
             (\<forall>q. 0 \<le> q \<and> q < p \<longrightarrow> pages blk q \<noteq> Some PAGE_EMPTY)"
proof -
  have "get_empty_page g block d = first_empty (pages blk) (py_range 0 (pages_per_block g))"
    using assms(1-4) by (simp add: get_empty_page_def)
  with first_empty_least [OF assms(5-8)] show ?thesis by simp
qed

lemma py_range_small [simp]: "py_range 0 2 = [0, 1]" "py_range 0 1 = [0]"
  by (simp_all add: py_range_def upto.simps)

lemma raw_read_page_Some:
  "0 \<le> b \<Longrightarrow> b < total_blocks g \<Longrightarrow> 0 \<le> p \<Longrightarrow> p < pages_per_block g \<Longrightarrow>
   ftl d b = Some blk \<Longrightarrow> pages blk p = Some s \<Longrightarrow>
   raw_read_page g b p d =
     (if s = PAGE_IN_USE
      then Inr (True, d\<lparr>elapsed_time := elapsed_time d + read_page_time g,
                         page_read_executed := page_read_executed d + 1\<rparr>)
      else Inr (False, d))"
  by (simp add: raw_read_page_def get_page_Some)

lemma raw_erase_block_Some:
  assumes "0 \<le> b" and "b < total_blocks g" and "ftl d b = Some blk"
  shows "raw_erase_block g b d =
     Inr (True, (upd_block d b (erased_block g blk))
                  \<lparr>block_erase_executed := block_erase_executed d + 1,
                   elapsed_time := elapsed_time d + erase_block_time g\<rparr>)"
proof -
  let ?blk1 = "blk\<lparr>pages := fold (\<lambda>p m. m(p \<mapsto> PAGE_EMPTY)) (py_range 0 (pages_per_block g)) (pages blk)\<rparr>"
  have 1: "erase_pages b (py_range 0 (pages_per_block g)) d = Inr (upd_block d b ?blk1)"
    using assms(3) by (rule erase_pages_Some)
  have 2: "get_block (upd_block d b ?blk1) b = Inr ?blk1" by simp
  show ?thesis
    using assms(1,2) by (simp add: raw_erase_block_def 1 2 erased_block_def upd_block_def)
qed

lemma pages_erased_block:
  "pages (erased_block g blk) q =
     (if 0 \<le> q \<and> q < pages_per_block g then Some PAGE_EMPTY else pages blk q)"
  by (simp add: erased_block_def fold_upd_lookup)

lemma count_pages_const:
  assumes "\<And>p. 0 \<le> p \<Longrightarrow> p < pages_per_block g \<Longrightarrow> pages blk p = Some t"
    and "0 \<le> pages_per_block g"
  shows "count_pages g blk s = (if s = t then pages_per_block g else 0)"
proof (cases "s = t")
  case True
  have "filter (\<lambda>p. pages blk p = Some s) (py_range 0 (pages_per_block g))
        = py_range 0 (pages_per_block g)"
    using assms(1) True by (intro filter_True) auto
  with True assms(2) show ?thesis by (simp add: count_pages_def)
next
  case False
  have "filter (\<lambda>p. pages blk p = Some s) (py_range 0 (pages_per_block g)) = []"
    using assms(1) False by (intro filter_False) auto
  with False show ?thesis by (simp add: count_pages_def)
qed

lemma block_inv_erased_block:
  assumes "0 \<le> pages_per_block g"
  shows "block_inv g (erased_block g blk)"
proof -
  have c: "count_pages g (erased_block g blk) s
           = (if s = PAGE_EMPTY then pages_per_block g else 0)" for s
    using assms by (intro count_pages_const) (simp_all add: pages_erased_block)
  show ?thesis
    by (simp add: block_inv_def c list_all_iff pages_erased_block) (simp add: erased_block_def)
qed

lemma raw_write_page_dirty:
  assumes "0 \<le> b" and "b < total_blocks g" and "0 \<le> p" and "p < pages_per_block g"
    and "get_page d b p = Inr PAGE_DIRTY"
  shows "raw_write_page (Suc n) pol g b p d = Inr (False, d)"
  using assms by (simp add: raw_write_page_body_def)

lemma raw_write_page_empty:
  assumes "0 \<le> b" and "b < total_blocks g" and "0 \<le> p" and "p < pages_per_block g"
    and "ftl d b = Some blk" and "pages blk p = Some PAGE_EMPTY"
  shows "raw_write_page_body fbwp g b p d =
     Inr (True, (upd_block d b (blk\<lparr>pages := (pages blk)(p \<mapsto> PAGE_IN_USE),
                                       empty := empty blk - 1\<rparr>))
                  \<lparr>elapsed_time := elapsed_time d + write_page_time g,
                   page_write_executed := page_write_executed d + 1\<rparr>)"
  using assms
  by (simp add: raw_write_page_body_def get_page_Some set_page_Some add_empty_Some)

lemma raw_write_page_room:
  assumes "0 \<le> b" and "b < total_blocks g" and "0 \<le> p" and "p < pages_per_block g"
    and "ftl d b = Some blk" and "pages blk p = Some PAGE_IN_USE" and "empty blk > 0"
    and "get_empty_page g b d = Inr newpage"
  shows "raw_write_page_body fbwp g b p d =
     Inr (True, (upd_block d b (blk\<lparr>pages := (pages blk)(p \<mapsto> PAGE_DIRTY, newpage \<mapsto> PAGE_IN_USE),
                                       empty := empty blk - 1, dirty := dirty blk + 1\<rparr>))
                  \<lparr>elapsed_time := elapsed_time d + write_page_time g,
                   page_write_executed := page_write_executed d + 1\<rparr>)"
  using assms
  by (simp add: raw_write_page_body_def get_page_Some set_page_Some add_empty_Some add_dirty_Some)

lemma raw_write_page_full:
  assumes "0 \<le> b" and "b < total_blocks g" and "0 \<le> p" and "p < pages_per_block g"
    and "ftl d b = Some blk" and "pages blk p = Some PAGE_IN_USE" and "empty blk \<le> 0"
  shows "raw_write_page_body fbwp g b p d =
     and_then (fbwp g b p d) (\<lambda>(res, d1).
        if res then Inr (True, d1)
        else Inr (False, d1\<lparr>page_write_failed := page_write_failed d1 + 1\<rparr>))"
  using assms
  by (simp add: raw_write_page_body_def get_page_Some)

lemma count_pages_counters [simp]:
  "count_pages g (blk\<lparr>empty := e\<rparr>) s = count_pages g blk s"
  "count_pages g (blk\<lparr>dirty := e\<rparr>) s = count_pages g blk s"
  by (simp_all add: count_pages_def)

lemma block_inv_set_page:
  assumes "block_inv g blk" and "0 \<le> p" and "p < pages_per_block g"
    and "pages blk p = Some old"
    and "e = empty blk + (if new = PAGE_EMPTY then 1 else 0) - (if old = PAGE_EMPTY then 1 else 0)"
    and "c = dirty blk + (if new = PAGE_DIRTY then 1 else 0) - (if old = PAGE_DIRTY then 1 else 0)"
  shows "block_inv g (blk\<lparr>pages := (pages blk)(p \<mapsto> new), empty := e, dirty := c\<rparr>)"
proof -
  let ?blk' = "blk\<lparr>pages := (pages blk)(p \<mapsto> new)\<rparr>"
  have "count_pages g ?blk' t
        = count_pages g blk t + (if new = t then 1 else 0) - (if old = t then 1 else 0)" for t
    using count_pages_upd [OF assms(2,3), of blk new t] assms(4) by auto
  moreover have "list_all (\<lambda>q. pages ?blk' q \<noteq> None) (py_range 0 (pages_per_block g))"
    using assms(1) by (auto simp: block_inv_def list_all_iff)
  ultimately show ?thesis
    using assms(1,5,6) by (simp add: block_inv_def)
qed

lemma block_inv_write_empty:
  assumes "block_inv g blk" and "0 \<le> p" and "p < pages_per_block g"
    and "pages blk p = Some PAGE_EMPTY"
  shows "block_inv g (blk\<lparr>pages := (pages blk)(p \<mapsto> PAGE_IN_USE), empty := empty blk - 1\<rparr>)"
  using block_inv_set_page [OF assms, of "empty blk - 1" PAGE_IN_USE "dirty blk"] by simp

lemma block_inv_mark_dirty:
  assumes "block_inv g blk" and "0 \<le> p" and "p < pages_per_block g"
    and "pages blk p = Some PAGE_IN_USE"
  shows "block_inv g (blk\<lparr>pages := (pages blk)(p \<mapsto> PAGE_DIRTY), dirty := dirty blk + 1\<rparr>)"
  using block_inv_set_page [OF assms, of "empty blk" PAGE_DIRTY "dirty blk + 1"] by simp

lemma block_inv_write_room:
  assumes "block_inv g blk" and "0 \<le> p" and "p < pages_per_block g"
    and "pages blk p = Some PAGE_IN_USE"
    and "0 \<le> q" and "q < pages_per_block g" and "pages blk q = Some PAGE_EMPTY"
  shows "block_inv g (blk\<lparr>pages := (pages blk)(p \<mapsto> PAGE_DIRTY, q \<mapsto> PAGE_IN_USE),
                          empty := empty blk - 1, dirty := dirty blk + 1\<rparr>)"
proof -
  let ?b1 = "blk\<lparr>pages := (pages blk)(p \<mapsto> PAGE_DIRTY), dirty := dirty blk + 1\<rparr>"
  have 1: "block_inv g ?b1" using assms(1-4) by (rule block_inv_mark_dirty)
  from assms(4,7) have "p \<noteq> q" by auto
  with assms(7) have 2: "pages ?b1 q = Some PAGE_EMPTY" by simp
  have eq: "?b1\<lparr>pages := (pages ?b1)(q \<mapsto> PAGE_IN_USE), empty := empty ?b1 - 1\<rparr>
        = blk\<lparr>pages := (pages blk)(p \<mapsto> PAGE_DIRTY, q \<mapsto> PAGE_IN_USE),
              empty := empty blk - 1, dirty := dirty blk + 1\<rparr>"
    by (cases blk) simp
  from block_inv_write_empty [OF 1 assms(5,6) 2] show ?thesis by (simp only: eq)
qed

lemma upd_block_swap:
  "a \<noteq> b \<Longrightarrow> upd_block (upd_block d a x) b y = upd_block (upd_block d b y) a x"
  by (simp add: upd_block_def fun_upd_twist)

lemma block_inv_has_empty:
  assumes "block_inv g blk" and "empty blk > 0"
  shows "\<exists>p. 0 \<le> p \<and> p < pages_per_block g \<and> pages blk p = Some PAGE_EMPTY"
proof -
  from assms have "filter (\<lambda>p. pages blk p = Some PAGE_EMPTY) (py_range 0 (pages_per_block g)) \<noteq> []"
    by (auto simp: block_inv_def count_pages_def)
  then obtain p where "p \<in> set (filter (\<lambda>p. pages blk p = Some PAGE_EMPTY) (py_range 0 (pages_per_block g)))"
    by (cases "filter (\<lambda>p. pages blk p = Some PAGE_EMPTY) (py_range 0 (pages_per_block g))") auto
  then show ?thesis by auto
qed

lemma block_inv_counters_nonneg:
  "block_inv g blk \<Longrightarrow> 0 \<le> empty blk \<and> 0 \<le> dirty blk"
  by (simp add: block_inv_def count_pages_def)

lemma get_empty_page_inv:
  assumes "0 \<le> b" and "b < total_blocks g" and "ftl d b = Some blk"
    and "block_inv g blk" and "empty blk > 0"
  shows "\<exists>p. get_empty_page g b d = Inr p \<and> 0 \<le> p \<and> p < pages_per_block g \<and>
             pages blk p = Some PAGE_EMPTY \<and>
             (\<forall>q. 0 \<le> q \<and> q < p \<longrightarrow> pages blk q \<noteq> Some PAGE_EMPTY)"
proof -
  from block_inv_has_empty [OF assms(4,5)] obtain p0
    where "0 \<le> p0" "p0 < pages_per_block g" "pages blk p0 = Some PAGE_EMPTY" by auto
  moreover from assms(4)
  have "list_all (\<lambda>p. pages blk p \<noteq> None) (py_range 0 (pages_per_block g))"
    by (simp add: block_inv_def)
  ultimately show ?thesis using assms(1,2,3,5) by (intro get_empty_page_least)
qed

lemma naive_scan_skip:
  "(\<And>b. b \<in> set pre \<Longrightarrow> b = block \<or> (\<exists>blk. ftl d b = Some blk \<and> empty blk \<le> 0)) \<Longrightarrow>
   naive_scan g block page (pre @ rest) d = naive_scan g block page rest d"
proof (induction pre)
  case Nil
  then show ?case by simp
next
  case (Cons a pre)
  have ih: "naive_scan g block page (pre @ rest) d = naive_scan g block page rest d"
  proof (rule Cons.IH)
    show "b = block \<or> (\<exists>blk. ftl d b = Some blk \<and> empty blk \<le> 0)" if "b \<in> set pre" for b
      using Cons.prems [of b] that by simp
  qed
  from Cons.prems [of a] have "a = block \<or> (\<exists>blk. ftl d a = Some blk \<and> empty blk \<le> 0)"
    by simp
  then show ?case using ih by auto
qed

lemma naive_scan_hit:
  assumes "b \<noteq> block" and "ftl d b = Some blkb" and "empty blkb > 0"
    and "get_empty_page g b d = Inr p" and "ftl d block = Some blk"
  shows "naive_scan g block page (b # bs) d =
     Inr (True,
          (upd_block
             (upd_block d block (blk\<lparr>pages := (pages blk)(page \<mapsto> PAGE_DIRTY),
                                      dirty := dirty blk + 1\<rparr>))
             b (blkb\<lparr>pages := (pages blkb)(p \<mapsto> PAGE_IN_USE), empty := empty blkb - 1\<rparr>))
            \<lparr>elapsed_time := elapsed_time d + write_page_time g,
             page_write_executed := page_write_executed d + 1\<rparr>)"
proof -
  let ?B1 = "blk\<lparr>pages := (pages blk)(page \<mapsto> PAGE_DIRTY)\<rparr>"
  let ?B2 = "blkb\<lparr>pages := (pages blkb)(p \<mapsto> PAGE_IN_USE)\<rparr>"
  let ?B1' = "blk\<lparr>pages := (pages blk)(page \<mapsto> PAGE_DIRTY), dirty := dirty blk + 1\<rparr>"
  let ?B2' = "blkb\<lparr>pages := (pages blkb)(p \<mapsto> PAGE_IN_USE), empty := empty blkb - 1\<rparr>"
  let ?d1 = "upd_block d block ?B1"
  let ?d2 = "upd_block ?d1 b ?B2"
  let ?d3 = "upd_block ?d2 block ?B1'"
  let ?d4 = "upd_block ?d3 b ?B2'"
  have 1: "set_page d block page PAGE_DIRTY = Inr ?d1"
    using assms(5) by (rule set_page_Some)
  have "ftl ?d1 b = Some blkb" using assms(1,2) by simp
  then have 2: "set_page ?d1 b p PAGE_IN_USE = Inr ?d2" by (rule set_page_Some)
  have "ftl ?d2 block = Some ?B1" using assms(1) by simp
  from add_dirty_Some [OF this, of 1] have 3: "add_dirty ?d2 block 1 = Inr ?d3" by simp
  have "ftl ?d3 b = Some ?B2" using assms(1) by simp
  from add_empty_Some [OF this, of "- 1"] have 4: "add_empty ?d3 b (- 1) = Inr ?d4" by simp
  have "?d3 = upd_block (upd_block d block ?B1') b ?B2"
    using assms(1) by (simp add: upd_block_swap)
  then have 5: "?d4 = upd_block (upd_block d block ?B1') b ?B2'"
    by simp
  have "naive_scan g block page (b # bs) d =
        and_then (get_empty_page g b d) (\<lambda>p.
          and_then (set_page d block page PAGE_DIRTY) (\<lambda>d1.
          and_then (set_page d1 b p PAGE_IN_USE) (\<lambda>d2.
          and_then (add_dirty d2 block 1) (\<lambda>d3.
          and_then (add_empty d3 b (- 1)) (\<lambda>d4.
            Inr (True, d4\<lparr>elapsed_time := elapsed_time d4 + write_page_time g,
                           page_write_executed := page_write_executed d4 + 1\<rparr>))))))"
    using assms(1,2,3) by simp
  also have "\<dots> = Inr (True, ?d4\<lparr>elapsed_time := elapsed_time ?d4 + write_page_time g,
                           page_write_executed := page_write_executed ?d4 + 1\<rparr>)"
    by (simp only: assms(4) 1 2 3 4 and_then_Inr)
  also have "\<dots> = Inr (True, (upd_block (upd_block d block ?B1') b ?B2')
                           \<lparr>elapsed_time := elapsed_time d + write_page_time g,
                            page_write_executed := page_write_executed d + 1\<rparr>)"
    by (simp only: 5 upd_block_counters)
  finally show ?thesis .
qed

lemma naive_policy_fail:
  assumes "0 \<le> block" and "block < total_blocks g" and "0 \<le> page" and "page < pages_per_block g"
    and "\<And>b. 0 \<le> b \<Longrightarrow> b < total_blocks g \<Longrightarrow> b \<noteq> block \<Longrightarrow>
           \<exists>blk. ftl d b = Some blk \<and> empty blk \<le> 0"
  shows "naive_full_block_write_policy g block page d = Inr (False, d)"
proof -
  have "naive_scan g block page (py_range 0 (total_blocks g) @ []) d
        = naive_scan g block page [] d"
    using assms(5) by (intro naive_scan_skip) auto
  with assms(1-4) show ?thesis by (simp add: naive_full_block_write_policy_def)
qed

lemma naive_policy_hit:
  assumes "0 \<le> block" and "block < total_blocks g" and "0 \<le> page" and "page < pages_per_block g"
    and "0 \<le> b" and "b < total_blocks g" and "b \<noteq> block"
    and "ftl d b = Some blkb" and "empty blkb > 0"
    and "get_empty_page g b d = Inr p" and "ftl d block = Some blk"
    and "\<And>b'. 0 \<le> b' \<Longrightarrow> b' < b \<Longrightarrow> b' \<noteq> block \<Longrightarrow>
           \<exists>blk'. ftl d b' = Some blk' \<and> empty blk' \<le> 0"
  shows "naive_full_block_write_policy g block page d =
     Inr (True,
          (upd_block
             (upd_block d block (blk\<lparr>pages := (pages blk)(page \<mapsto> PAGE_DIRTY),
                                      dirty := dirty blk + 1\<rparr>))
             b (blkb\<lparr>pages := (pages blkb)(p \<mapsto> PAGE_IN_USE), empty := empty blkb - 1\<rparr>))
            \<lparr>elapsed_time := elapsed_time d + write_page_time g,
             page_write_executed := page_write_executed d + 1\<rparr>)"
proof -
  have split: "py_range 0 (total_blocks g)
               = py_range 0 b @ b # py_range (b + 1) (total_blocks g)"
    using assms(5,6) by (rule py_range_split)
  have "naive_scan g block page (py_range 0 b @ b # py_range (b + 1) (total_blocks g)) d
        = naive_scan g block page (b # py_range (b + 1) (total_blocks g)) d"
    using assms(12) by (intro naive_scan_skip) auto
  also note naive_scan_hit [OF assms(7,8,9,10,11)]
  finally show ?thesis
    using assms(1-4) by (simp only: naive_full_block_write_policy_def split check_block_ok check_page_ok)
qed

lemma temp_block_of_Nil [simp]: "temp_block_of blk [] t = t"
  by (simp add: temp_block_of_def)

lemma temp_block_of_Cons [simp]:
  "temp_block_of blk (q # ps) t =
     temp_block_of blk ps
       (t(q \<mapsto> (if pages blk q = Some PAGE_IN_USE then PAGE_IN_USE else PAGE_EMPTY)))"
  by (simp add: temp_block_of_def)

lemma temp_block_of_lookup:
  "temp_block_of blk ps t q =
     (if q \<in> set ps
      then Some (if pages blk q = Some PAGE_IN_USE then PAGE_IN_USE else PAGE_EMPTY)
      else t q)"
  by (induction ps arbitrary: t) auto

lemma rewritten_block_Nil [simp]: "rewritten_block t [] blk = blk"
  by (simp add: rewritten_block_def)

lemma rewritten_block_Cons [simp]:
  "rewritten_block t (q # ps) blk =
     rewritten_block t ps
       (if t q = Some PAGE_IN_USE
        then blk\<lparr>pages := (pages blk)(q \<mapsto> PAGE_IN_USE), empty := empty blk - 1\<rparr>
        else blk)"
  by (simp add: rewritten_block_def)

lemma pages_rewritten_block:
  "pages (rewritten_block t ps blk) q =
     (if q \<in> set ps \<and> t q = Some PAGE_IN_USE then Some PAGE_IN_USE else pages blk q)"
  by (induction ps arbitrary: blk) auto

lemma empty_rewritten_block:
  "empty (rewritten_block t ps blk)
     = empty blk - int (length (filter (\<lambda>q. t q = Some PAGE_IN_USE) ps))"
  by (induction ps arbitrary: blk) auto

lemma dirty_rewritten_block: "dirty (rewritten_block t ps blk) = dirty blk"
  by (induction ps arbitrary: blk) auto

lemma in_place_step1_run:
  assumes "0 \<le> block" and "block < total_blocks g" and "ftl d block = Some blk"
    and "\<And>q. q \<in> set ps \<Longrightarrow> 0 \<le> q \<and> q < pages_per_block g \<and> pages blk q \<noteq> None"
  shows "in_place_step1 g block ps t d =
     Inr (temp_block_of blk ps t,
          d\<lparr>elapsed_time := elapsed_time d
               + int (length (filter (\<lambda>q. pages blk q = Some PAGE_IN_USE) ps)) * read_page_time g,
            page_read_executed := page_read_executed d
               + int (length (filter (\<lambda>q. pages blk q = Some PAGE_IN_USE) ps))\<rparr>)"
  using assms
proof (induction ps arbitrary: t d)
  case Nil
  then show ?case by simp
next
  case (Cons a ps)
  from Cons.prems(4) [of a] obtain s where s: "0 \<le> a" "a < pages_per_block g" "pages blk a = Some s"
    by auto
  let ?d1 = "if s = PAGE_IN_USE
             then d\<lparr>elapsed_time := elapsed_time d + read_page_time g,
                    page_read_executed := page_read_executed d + 1\<rparr>
             else d"
  have read: "raw_read_page g block a d = Inr (s = PAGE_IN_USE, ?d1)"
    using raw_read_page_Some [OF Cons.prems(1,2) s(1,2) Cons.prems(3) s(3)] by simp
  have ftl1: "ftl ?d1 block = Some blk" using Cons.prems(3) by simp
  have ih: "in_place_step1 g block ps t' ?d1 =
     Inr (temp_block_of blk ps t',
          ?d1\<lparr>elapsed_time := elapsed_time ?d1
               + int (length (filter (\<lambda>q. pages blk q = Some PAGE_IN_USE) ps)) * read_page_time g,
            page_read_executed := page_read_executed ?d1
               + int (length (filter (\<lambda>q. pages blk q = Some PAGE_IN_USE) ps))\<rparr>)" for t'
    using Cons.prems(1,2) ftl1
  proof (rule Cons.IH)
    show "0 \<le> q \<and> q < pages_per_block g \<and> pages blk q \<noteq> None" if "q \<in> set ps" for q
      using Cons.prems(4) [of q] that by simp
  qed
  show ?case
    by (simp add: raw_read_page_with_status_def read ih s(3) algebra_simps)
qed

lemma upd_block_counter_upd:
  "upd_block (d\<lparr>elapsed_time := x\<rparr>) b B = (upd_block d b B)\<lparr>elapsed_time := x\<rparr>"
  "upd_block (d\<lparr>page_write_executed := x\<rparr>) b B = (upd_block d b B)\<lparr>page_write_executed := x\<rparr>"
  "upd_block (d\<lparr>page_read_executed := x\<rparr>) b B = (upd_block d b B)\<lparr>page_read_executed := x\<rparr>"
  "upd_block (d\<lparr>block_erase_executed := x\<rparr>) b B = (upd_block d b B)\<lparr>block_erase_executed := x\<rparr>"
  by (simp_all add: upd_block_def)

lemma ftl_counter_upd_upd_block [simp]:
  "ftl ((upd_block d b B)\<lparr>elapsed_time := x, page_write_executed := y\<rparr>) = (ftl d)(b \<mapsto> B)"
  by simp

lemma in_place_step3_run:
  assumes "0 \<le> block" and "block < total_blocks g" and "ftl d block = Some blk"
    and "distinct ps"
    and "\<And>q. q \<in> set ps \<Longrightarrow>
           0 \<le> q \<and> q < pages_per_block g \<and> pages blk q = Some PAGE_EMPTY \<and> t q \<noteq> None"
  shows "in_place_step3 (raw_write_page_body fbwp) g block ps t d =
     Inr ((upd_block d block (rewritten_block t ps blk))
            \<lparr>elapsed_time := elapsed_time d
               + int (length (filter (\<lambda>q. t q = Some PAGE_IN_USE) ps)) * write_page_time g,
             page_write_executed := page_write_executed d
               + int (length (filter (\<lambda>q. t q = Some PAGE_IN_USE) ps))\<rparr>)"
  using assms
proof (induction ps arbitrary: d blk)
  case Nil
  then show ?case by (simp add: upd_block_same)
next
  case (Cons a ps)
  from Cons.prems(5) [of a] obtain s
    where a: "0 \<le> a" "a < pages_per_block g" "pages blk a = Some PAGE_EMPTY" "t a = Some s"
    by auto
  from Cons.prems(4) have dist: "distinct ps" "a \<notin> set ps" by auto
  show ?case
  proof (cases "s = PAGE_IN_USE")
    case False
    have "in_place_step3 (raw_write_page_body fbwp) g block ps t d =
       Inr ((upd_block d block (rewritten_block t ps blk))
            \<lparr>elapsed_time := elapsed_time d
               + int (length (filter (\<lambda>q. t q = Some PAGE_IN_USE) ps)) * write_page_time g,
             page_write_executed := page_write_executed d
               + int (length (filter (\<lambda>q. t q = Some PAGE_IN_USE) ps))\<rparr>)"
      using Cons.prems(1,2,3) dist(1)
    proof (rule Cons.IH)
      show "0 \<le> q \<and> q < pages_per_block g \<and> pages blk q = Some PAGE_EMPTY \<and> t q \<noteq> None"
        if "q \<in> set ps" for q using Cons.prems(5) [of q] that by simp
    qed
    with False a(4) show ?thesis by simp
  next
    case True
    let ?B1 = "blk\<lparr>pages := (pages blk)(a \<mapsto> PAGE_IN_USE), empty := empty blk - 1\<rparr>"
    let ?d1 = "(upd_block d block ?B1)\<lparr>elapsed_time := elapsed_time d + write_page_time g,
                   page_write_executed := page_write_executed d + 1\<rparr>"
    have w: "raw_write_page_body fbwp g block a d = Inr (True, ?d1)"
      using Cons.prems(1,2) a(1,2) Cons.prems(3) a(3) by (rule raw_write_page_empty)
    have ftl1: "ftl ?d1 block = Some ?B1" by simp
    have ih: "in_place_step3 (raw_write_page_body fbwp) g block ps t ?d1 =
       Inr ((upd_block ?d1 block (rewritten_block t ps ?B1))
            \<lparr>elapsed_time := elapsed_time ?d1
               + int (length (filter (\<lambda>q. t q = Some PAGE_IN_USE) ps)) * write_page_time g,
             page_write_executed := page_write_executed ?d1
               + int (length (filter (\<lambda>q. t q = Some PAGE_IN_USE) ps))\<rparr>)"
      using Cons.prems(1,2) ftl1 dist(1)
    proof (rule Cons.IH)
      show "0 \<le> q \<and> q < pages_per_block g \<and> pages ?B1 q = Some PAGE_EMPTY \<and> t q \<noteq> None"
        if "q \<in> set ps" for q using Cons.prems(5) [of q] that dist(2) by auto
    qed
    have "in_place_step3 (raw_write_page_body fbwp) g block (a # ps) t d
          = in_place_step3 (raw_write_page_body fbwp) g block ps t ?d1"
      using True a(4) by (simp add: w)
    also note ih
    also have "(upd_block ?d1 block (rewritten_block t ps ?B1))
            \<lparr>elapsed_time := elapsed_time ?d1
               + int (length (filter (\<lambda>q. t q = Some PAGE_IN_USE) ps)) * write_page_time g,
             page_write_executed := page_write_executed ?d1
               + int (length (filter (\<lambda>q. t q = Some PAGE_IN_USE) ps))\<rparr>
       = (upd_block d block (rewritten_block t (a # ps) blk))
            \<lparr>elapsed_time := elapsed_time d
               + int (length (filter (\<lambda>q. t q = Some PAGE_IN_USE) (a # ps))) * write_page_time g,
             page_write_executed := page_write_executed d
               + int (length (filter (\<lambda>q. t q = Some PAGE_IN_USE) (a # ps)))\<rparr>"
      using True a(4) by (simp add: upd_block_counter_upd algebra_simps)
    finally show ?thesis .
  qed
qed

lemma in_place_temp_block_lookup:
  assumes "0 \<le> page" and "page < pages_per_block g"
  shows "in_place_temp_block g blk page q =
     (if 0 \<le> q \<and> q < pages_per_block g
      then Some (if q = page \<or> pages blk q = Some PAGE_IN_USE then PAGE_IN_USE else PAGE_EMPTY)
      else None)"
  using assms by (simp add: in_place_temp_block_def temp_block_of_lookup)

lemma pages_in_place_block:
  assumes "0 \<le> page" and "page < pages_per_block g"
  shows "pages (in_place_block g blk page) q =
     (if 0 \<le> q \<and> q < pages_per_block g
      then Some (if q = page \<or> pages blk q = Some PAGE_IN_USE then PAGE_IN_USE else PAGE_EMPTY)
      else pages blk q)"
  using assms
  by (simp add: in_place_block_def pages_rewritten_block pages_erased_block
      in_place_temp_block_lookup)

lemma empty_in_place_block:
  assumes "0 \<le> page" and "page < pages_per_block g"
  shows "empty (in_place_block g blk page) = pages_per_block g - in_place_writes g blk page"
proof -
  have "filter (\<lambda>q. in_place_temp_block g blk page q = Some PAGE_IN_USE)
          (py_range 0 (pages_per_block g))
        = filter (\<lambda>q. q = page \<or> pages blk q = Some PAGE_IN_USE)
          (py_range 0 (pages_per_block g))"
    by (rule filter_cong) (auto simp: in_place_temp_block_lookup [OF assms])
  then show ?thesis
    by (simp add: in_place_block_def empty_rewritten_block in_place_writes_def erased_block_def)
qed

lemma dirty_in_place_block: "dirty (in_place_block g blk page) = 0"
  by (simp add: in_place_block_def dirty_rewritten_block erased_block_def)

lemma in_place_policy_run:
  assumes "0 \<le> block" and "block < total_blocks g" and "0 \<le> page" and "page < pages_per_block g"
    and "ftl d block = Some blk"
    and "list_all (\<lambda>q. pages blk q \<noteq> None) (py_range 0 (pages_per_block g))"
  shows "in_place_full_block_write_policy (raw_write_page_body fbwp) g block page d =
     Inr (True,
          (upd_block d block (in_place_block g blk page))
            \<lparr>elapsed_time := elapsed_time d + in_place_reads g blk page * read_page_time g
               + erase_block_time g + in_place_writes g blk page * write_page_time g,
             page_write_executed := page_write_executed d + in_place_writes g blk page,
             page_read_executed := page_read_executed d + in_place_reads g blk page,
             block_erase_executed := block_erase_executed d + 1\<rparr>)"
proof -
  let ?ps = "py_range 0 (pages_per_block g)"
  let ?B1 = "blk\<lparr>pages := (pages blk)(page \<mapsto> PAGE_DIRTY)\<rparr>"
  let ?d1 = "upd_block d block ?B1"
  let ?r = "int (length (filter (\<lambda>q. pages ?B1 q = Some PAGE_IN_USE) ?ps))"
  let ?d2 = "?d1\<lparr>elapsed_time := elapsed_time ?d1 + ?r * read_page_time g,
                 page_read_executed := page_read_executed ?d1 + ?r\<rparr>"
  let ?t1 = "temp_block_of ?B1 ?ps Map.empty"
  let ?t = "in_place_temp_block g blk page"
  let ?d3 = "(upd_block ?d2 block (erased_block g ?B1))
               \<lparr>block_erase_executed := block_erase_executed ?d2 + 1,
                elapsed_time := elapsed_time ?d2 + erase_block_time g\<rparr>"
  let ?k = "int (length (filter (\<lambda>q. ?t q = Some PAGE_IN_USE) ?ps))"
  let ?d4 = "(upd_block ?d3 block (rewritten_block ?t ?ps (erased_block g ?B1)))
               \<lparr>elapsed_time := elapsed_time ?d3 + ?k * write_page_time g,
                page_write_executed := page_write_executed ?d3 + ?k\<rparr>"
  have s0: "set_page d block page PAGE_DIRTY = Inr ?d1"
    using assms(5) by (rule set_page_Some)
  have ftl1: "ftl ?d1 block = Some ?B1" by simp
  have s1: "in_place_step1 g block ?ps Map.empty ?d1 = Inr (?t1, ?d2)"
    using assms(1,2) ftl1
  proof (rule in_place_step1_run)
    show "0 \<le> q \<and> q < pages_per_block g \<and> pages ?B1 q \<noteq> None" if "q \<in> set ?ps" for q
      using that assms(6) by (auto simp: list_all_iff)
  qed
  have ftl2: "ftl ?d2 block = Some ?B1" by simp
  have s2: "raw_erase_block g block ?d2 = Inr (True, ?d3)"
    using assms(1,2) ftl2 by (rule raw_erase_block_Some)
  have ftl3: "ftl ?d3 block = Some (erased_block g ?B1)" by simp
  have s3: "in_place_step3 (raw_write_page_body fbwp) g block ?ps ?t ?d3 = Inr ?d4"
    using assms(1,2) ftl3 distinct_py_range
  proof (rule in_place_step3_run)
    show "0 \<le> q \<and> q < pages_per_block g \<and> pages (erased_block g ?B1) q = Some PAGE_EMPTY
          \<and> ?t q \<noteq> None" if "q \<in> set ?ps" for q
      using that by (simp add: pages_erased_block in_place_temp_block_lookup [OF assms(3,4)])
  qed
  have t: "?t1(page \<mapsto> PAGE_IN_USE) = ?t" by (simp add: in_place_temp_block_def)
  have r: "?r = in_place_reads g blk page"
    unfolding in_place_reads_def
    by (rule arg_cong [where f = "\<lambda>x. int (length x)"], rule filter_cong) auto
  have k: "?k = in_place_writes g blk page"
    unfolding in_place_writes_def
    by (rule arg_cong [where f = "\<lambda>x. int (length x)"], rule filter_cong)
       (auto simp: in_place_temp_block_lookup [OF assms(3,4)])
  have "in_place_full_block_write_policy (raw_write_page_body fbwp) g block page d = Inr (True, ?d4)"
    using assms(1-4)
    by (simp only: in_place_full_block_write_policy_def check_block_ok check_page_ok
        s0 s1 s2 s3 t and_then_Inr prod.case)
  also have "?d4 = (upd_block d block (in_place_block g blk page))
            \<lparr>elapsed_time := elapsed_time d + in_place_reads g blk page * read_page_time g
               + erase_block_time g + in_place_writes g blk page * write_page_time g,
             page_write_executed := page_write_executed d + in_place_writes g blk page,
             page_read_executed := page_read_executed d + in_place_reads g blk page,
             block_erase_executed := block_erase_executed d + 1\<rparr>"
    unfolding r k by (simp add: upd_block_def in_place_block_def)
  finally show ?thesis .
qed

lemma disk_inv_counter_upd [simp]:
  "disk_inv g (d\<lparr>elapsed_time := x\<rparr>) = disk_inv g d"
  "disk_inv g (d\<lparr>host_page_write_request := x\<rparr>) = disk_inv g d"
  "disk_inv g (d\<lparr>page_write_executed := x\<rparr>) = disk_inv g d"
  "disk_inv g (d\<lparr>page_write_failed := x\<rparr>) = disk_inv g d"
  "disk_inv g (d\<lparr>host_page_read_request := x\<rparr>) = disk_inv g d"
  "disk_inv g (d\<lparr>page_read_executed := x\<rparr>) = disk_inv g d"
  "disk_inv g (d\<lparr>block_erase_executed := x\<rparr>) = disk_inv g d"
  by (simp_all add: disk_inv_def)

lemma block_inv_init_block:
  assumes "0 \<le> pages_per_block g"
  shows "block_inv g (init_block g)"
proof -
  have p: "pages (init_block g) q
           = (if 0 \<le> q \<and> q < pages_per_block g then Some PAGE_EMPTY else None)" for q
    by (simp add: init_block_def fold_upd_lookup)
  have c: "count_pages g (init_block g) s
           = (if s = PAGE_EMPTY then pages_per_block g else 0)" for s
    using assms by (intro count_pages_const) (simp_all add: p)
  show ?thesis
    by (simp add: block_inv_def c list_all_iff p) (simp add: init_block_def)
qed

lemma disk_inv_init:
  assumes "0 \<le> pages_per_block g"
  shows "disk_inv g (BaseNANDDisk_init g)"
proof -
  have "ftl (BaseNANDDisk_init g) b
        = (if 0 \<le> b \<and> b < total_blocks g then Some (init_block g) else None)" for b
    by (simp add: BaseNANDDisk_init_def fold_upd_lookup)
  with block_inv_init_block [OF assms] show ?thesis
    by (simp add: disk_inv_def list_all_iff)
qed

lemma block_inv_in_place_block:
  assumes "0 \<le> pages_per_block g" and "0 \<le> page" and "page < pages_per_block g"
  shows "block_inv g (in_place_block g blk page)"
proof -
  let ?B = "in_place_block g blk page"
  note pg = pages_in_place_block [OF assms(2,3)]
  have present: "list_all (\<lambda>q. pages ?B q \<noteq> None) (py_range 0 (pages_per_block g))"
    by (simp add: list_all_iff pg)
  have "filter (\<lambda>q. pages ?B q = Some PAGE_DIRTY) (py_range 0 (pages_per_block g)) = []"
    by (intro filter_False) (auto simp: pg)
  then have cd: "count_pages g ?B PAGE_DIRTY = 0" by (simp add: count_pages_def)
  have "filter (\<lambda>q. pages ?B q = Some PAGE_IN_USE) (py_range 0 (pages_per_block g))
        = filter (\<lambda>q. q = page \<or> pages blk q = Some PAGE_IN_USE) (py_range 0 (pages_per_block g))"
    by (rule filter_cong) (auto simp: pg)
  then have cu: "count_pages g ?B PAGE_IN_USE = in_place_writes g blk page"
    by (simp add: count_pages_def in_place_writes_def)
  from count_pages_total [OF present assms(1)] cd cu
  have "count_pages g ?B PAGE_EMPTY = pages_per_block g - in_place_writes g blk page" by simp
  with present cd show ?thesis
    by (simp add: block_inv_def empty_in_place_block [OF assms(2,3)] dirty_in_place_block)
qed

lemma in_place_writes_pos:
  assumes "0 \<le> page" and "page < pages_per_block g"
  shows "1 \<le> in_place_writes g blk page"
proof -
  have "page \<in> set (filter (\<lambda>q. q = page \<or> pages blk q = Some PAGE_IN_USE)
                       (py_range 0 (pages_per_block g)))"
    using assms by simp
  then have "filter (\<lambda>q. q = page \<or> pages blk q = Some PAGE_IN_USE)
                       (py_range 0 (pages_per_block g)) \<noteq> []"
    by (metis empty_iff list.set(1))
  then show ?thesis
    unfolding in_place_writes_def
    by (cases "filter (\<lambda>q. q = page \<or> pages blk q = Some PAGE_IN_USE)
                       (py_range 0 (pages_per_block g))") auto
qed

lemma in_place_reads_nonneg: "0 \<le> in_place_reads g blk page"
  by (simp add: in_place_reads_def)

lemma block_inv_present_list:
  "block_inv g blk \<Longrightarrow> list_all (\<lambda>q. pages blk q \<noteq> None) (py_range 0 (pages_per_block g))"
  by (simp add: block_inv_def)

lemma naive_policy_cases:
  assumes inv: "disk_inv g d"
    and rng: "0 \<le> block" "block < total_blocks g" "0 \<le> page" "page < pages_per_block g"
    and blk: "ftl d block = Some blk"
  obtains (fail)
      "\<forall>b. 0 \<le> b \<and> b < total_blocks g \<and> b \<noteq> block \<longrightarrow>
           (\<exists>blkb. ftl d b = Some blkb \<and> empty blkb = 0)"
      "naive_full_block_write_policy g block page d = Inr (False, d)"
  | (hit) b blkb p where
      "0 \<le> b" "b < total_blocks g" "b \<noteq> block" "ftl d b = Some blkb" "block_inv g blkb"
      "empty blkb > 0"
      "\<forall>b'. 0 \<le> b' \<and> b' < b \<and> b' \<noteq> block \<longrightarrow>
           (\<exists>blk'. ftl d b' = Some blk' \<and> empty blk' = 0)"
      "0 \<le> p" "p < pages_per_block g" "pages blkb p = Some PAGE_EMPTY"
      "\<forall>q. 0 \<le> q \<and> q < p \<longrightarrow> pages blkb q \<noteq> Some PAGE_EMPTY"
      "naive_full_block_write_policy g block page d =
         Inr (True,
          (upd_block
             (upd_block d block (blk\<lparr>pages := (pages blk)(page \<mapsto> PAGE_DIRTY),
                                      dirty := dirty blk + 1\<rparr>))
             b (blkb\<lparr>pages := (pages blkb)(p \<mapsto> PAGE_IN_USE), empty := empty blkb - 1\<rparr>))
            \<lparr>elapsed_time := elapsed_time d + write_page_time g,
             page_write_executed := page_write_executed d + 1\<rparr>)"
proof -
  let ?free = "\<lambda>b. b < total_blocks g \<and> b \<noteq> block \<and> (\<exists>blkb. ftl d b = Some blkb \<and> empty blkb > 0)"
  have full: "\<exists>blk'. ftl d b' = Some blk' \<and> empty blk' = 0"
    if "0 \<le> b'" "b' < total_blocks g" "b' \<noteq> block" "\<not> ?free b'" for b'
  proof -
    from disk_inv_block [OF inv that(1,2)] obtain blk'
      where b': "ftl d b' = Some blk'" "block_inv g blk'" by auto
    from block_inv_counters_nonneg [OF b'(2)] that b'(1) show ?thesis by auto
  qed
  show thesis
  proof (cases "\<exists>b0. 0 \<le> b0 \<and> ?free b0")
    case False
    then have all: "\<forall>b. 0 \<le> b \<and> b < total_blocks g \<and> b \<noteq> block \<longrightarrow>
           (\<exists>blkb. ftl d b = Some blkb \<and> empty blkb = 0)"
      using full by blast
    have "naive_full_block_write_policy g block page d = Inr (False, d)"
      using rng
    proof (rule naive_policy_fail)
      show "\<exists>blk. ftl d b = Some blk \<and> empty blk \<le> 0"
        if "0 \<le> b" "b < total_blocks g" "b \<noteq> block" for b
        using all that by auto
    qed
    with all show thesis by (rule fail)
  next
    case True
    then obtain b0 where "0 \<le> b0" "?free b0" by blast
    from least_nonneg_int [of b0 ?free, OF this] obtain b
      where b: "0 \<le> b" "?free b" "\<forall>q. 0 \<le> q \<and> q < b \<longrightarrow> \<not> ?free q" by blast
    from b(2) obtain blkb where blkb: "ftl d b = Some blkb" "empty blkb > 0" by blast
    from b(2) have b_rng: "b < total_blocks g" "b \<noteq> block" by auto
    from disk_inv_block [OF inv b(1) b_rng(1)] blkb(1) have binv: "block_inv g blkb" by auto
    have before: "\<forall>b'. 0 \<le> b' \<and> b' < b \<and> b' \<noteq> block \<longrightarrow>
           (\<exists>blk'. ftl d b' = Some blk' \<and> empty blk' = 0)"
    proof (intro allI impI)
      fix b' assume a: "0 \<le> b' \<and> b' < b \<and> b' \<noteq> block"
      with b(3) have "\<not> ?free b'" by blast
      moreover from a b_rng(1) have "b' < total_blocks g" by simp
      ultimately show "\<exists>blk'. ftl d b' = Some blk' \<and> empty blk' = 0"
        using full [of b'] a by blast
    qed
    from get_empty_page_inv [OF b(1) b_rng(1) blkb(1) binv blkb(2)] obtain p
      where p: "get_empty_page g b d = Inr p" "0 \<le> p" "p < pages_per_block g"
        "pages blkb p = Some PAGE_EMPTY"
        "\<forall>q. 0 \<le> q \<and> q < p \<longrightarrow> pages blkb q \<noteq> Some PAGE_EMPTY" by blast
    have "naive_full_block_write_policy g block page d =
         Inr (True,
          (upd_block
             (upd_block d block (blk\<lparr>pages := (pages blk)(page \<mapsto> PAGE_DIRTY),
                                      dirty := dirty blk + 1\<rparr>))
             b (blkb\<lparr>pages := (pages blkb)(p \<mapsto> PAGE_IN_USE), empty := empty blkb - 1\<rparr>))
            \<lparr>elapsed_time := elapsed_time d + write_page_time g,
             page_write_executed := page_write_executed d + 1\<rparr>)"
      using rng b(1) b_rng blkb p(1) blk
    proof (rule naive_policy_hit)
      show "\<exists>blk'. ftl d b' = Some blk' \<and> empty blk' \<le> 0"
        if "0 \<le> b'" "b' < b" "b' \<noteq> block" for b'
        using before that by auto
    qed
    with b(1) b_rng blkb(1) binv blkb(2) before p(2-5) show thesis by (rule hit)
  qed
qed

lemma raw_read_page_step:
  assumes inv: "disk_inv g d"
    and rng: "0 \<le> block" "block < total_blocks g" "0 \<le> page" "page < pages_per_block g"
  shows "\<exists>res d'. raw_read_page g block page d = Inr (res, d') \<and> disk_inv g d' \<and>
           ftl d' = ftl d \<and>
           host_page_write_request d' = host_page_write_request d \<and>
           page_write_executed d' = page_write_executed d \<and>
           page_write_failed d' = page_write_failed d"
proof -
  from disk_inv_block [OF inv rng(1,2)] obtain blk
    where blk: "ftl d block = Some blk" "block_inv g blk" by auto
  from block_inv_present [OF blk(2) rng(3,4)] obtain s where s: "pages blk page = Some s" by auto
  from raw_read_page_Some [OF rng blk(1) s] inv show ?thesis by (cases "s = PAGE_IN_USE") auto
qed

lemma raw_erase_block_step:
  assumes inv: "disk_inv g d" and ppb: "0 \<le> pages_per_block g"
    and rng: "0 \<le> block" "block < total_blocks g"
  shows "\<exists>d'. raw_erase_block g block d = Inr (True, d') \<and> disk_inv g d' \<and>
           host_page_write_request d' = host_page_write_request d \<and>
           page_write_executed d' = page_write_executed d \<and>
           page_write_failed d' = page_write_failed d"
proof -
  from disk_inv_block [OF inv rng] obtain blk
    where blk: "ftl d block = Some blk" "block_inv g blk" by auto
  have "disk_inv g (upd_block d block (erased_block g blk))"
    using inv block_inv_erased_block [OF ppb] by (rule disk_inv_upd_block)
  with raw_erase_block_Some [OF rng blk(1)] show ?thesis by simp
qed

lemma naive_policy_step:
  assumes inv: "disk_inv g d"
    and rng: "0 \<le> block" "block < total_blocks g" "0 \<le> page" "page < pages_per_block g"
    and blk: "ftl d block = Some blk" and use: "pages blk page = Some PAGE_IN_USE"
  shows "\<exists>res d'. naive_full_block_write_policy g block page d = Inr (res, d') \<and>
           disk_inv g d' \<and>
           host_page_write_request d' = host_page_write_request d \<and>
           page_write_failed d' = page_write_failed d \<and>
           (if res then page_write_executed d' = page_write_executed d + 1 else d' = d)"
  using inv rng blk
proof (cases rule: naive_policy_cases)
  case fail
  with inv show ?thesis by (intro exI [of _ False] exI [of _ d]) simp
next
  case (hit b blkb p)
  from disk_inv_block [OF inv rng(1,2)] blk have binv: "block_inv g blk" by auto
  have 1: "block_inv g (blk\<lparr>pages := (pages blk)(page \<mapsto> PAGE_DIRTY), dirty := dirty blk + 1\<rparr>)"
    using binv rng(3,4) use by (rule block_inv_mark_dirty)
  have 2: "block_inv g (blkb\<lparr>pages := (pages blkb)(p \<mapsto> PAGE_IN_USE), empty := empty blkb - 1\<rparr>)"
    using hit(5,8,9,10) by (rule block_inv_write_empty)
  have "disk_inv g (upd_block
             (upd_block d block (blk\<lparr>pages := (pages blk)(page \<mapsto> PAGE_DIRTY),
                                      dirty := dirty blk + 1\<rparr>))
             b (blkb\<lparr>pages := (pages blkb)(p \<mapsto> PAGE_IN_USE), empty := empty blkb - 1\<rparr>))"
    by (intro disk_inv_upd_block inv 1 2)
  with hit(12) show ?thesis
    by (intro exI [of _ True]
          exI [of _ "(upd_block
             (upd_block d block (blk\<lparr>pages := (pages blk)(page \<mapsto> PAGE_DIRTY),
                                      dirty := dirty blk + 1\<rparr>))
             b (blkb\<lparr>pages := (pages blkb)(p \<mapsto> PAGE_IN_USE), empty := empty blkb - 1\<rparr>))
            \<lparr>elapsed_time := elapsed_time d + write_page_time g,
             page_write_executed := page_write_executed d + 1\<rparr>"]) simp
qed

lemma in_place_policy_step:
  assumes inv: "disk_inv g d" and ppb: "0 \<le> pages_per_block g"
    and rng: "0 \<le> block" "block < total_blocks g" "0 \<le> page" "page < pages_per_block g"
  shows "\<exists>d'. in_place_full_block_write_policy (raw_write_page_body fbwp) g block page d
             = Inr (True, d') \<and>
           disk_inv g d' \<and>
           host_page_write_request d' = host_page_write_request d \<and>
           page_write_failed d' = page_write_failed d \<and>
           page_write_executed d + 1 \<le> page_write_executed d'"
proof -
  from disk_inv_block [OF inv rng(1,2)] obtain blk
    where blk: "ftl d block = Some blk" "block_inv g blk" by auto
  have "disk_inv g (upd_block d block (in_place_block g blk page))"
    using inv block_inv_in_place_block [OF ppb rng(3,4)] by (rule disk_inv_upd_block)
  with in_place_policy_run [OF rng blk(1) block_inv_present_list [OF blk(2)], of fbwp]
    in_place_writes_pos [OF rng(3,4), of blk]
  show ?thesis
    by (intro exI [of _ "(upd_block d block (in_place_block g blk page))
            \<lparr>elapsed_time := elapsed_time d + in_place_reads g blk page * read_page_time g
               + erase_block_time g + in_place_writes g blk page * write_page_time g,
             page_write_executed := page_write_executed d + in_place_writes g blk page,
             page_read_executed := page_read_executed d + in_place_reads g blk page,
             block_erase_executed := block_erase_executed d + 1\<rparr>"]) simp
qed

lemma policy_step:
  assumes inv: "disk_inv g d" and ppb: "0 \<le> pages_per_block g"
    and rng: "0 \<le> block" "block < total_blocks g" "0 \<le> page" "page < pages_per_block g"
    and guard: "pol = Naive \<longrightarrow> get_page d block page = Inr PAGE_IN_USE"
  shows "\<exists>res d'. full_block_write_policy (Suc m) pol g block page d = Inr (res, d') \<and>
           disk_inv g d' \<and>
           host_page_write_request d' = host_page_write_request d \<and>
           page_write_failed d' = page_write_failed d \<and>
           (if res then page_write_executed d + 1 \<le> page_write_executed d' else d' = d)"
proof (cases pol)
  case Naive
  from disk_inv_block [OF inv rng(1,2)] obtain blk
    where blk: "ftl d block = Some blk" "block_inv g blk" by auto
  from block_inv_present [OF blk(2) rng(3,4)] obtain s where s: "pages blk page = Some s" by auto
  with guard Naive blk(1) have "pages blk page = Some PAGE_IN_USE"
    by (simp add: get_page_Some)
  from naive_policy_step [OF inv rng blk(1) this] obtain res d'
    where r: "naive_full_block_write_policy g block page d = Inr (res, d')" "disk_inv g d'"
      "host_page_write_request d' = host_page_write_request d"
      "page_write_failed d' = page_write_failed d"
      "if res then page_write_executed d' = page_write_executed d + 1 else d' = d" by blast
  have "full_block_write_policy (Suc m) pol g block page d = Inr (res, d')"
    using r(1) Naive by (simp add: full_block_write_policy_def policy_with_def)
  moreover from r(5) have "if res then page_write_executed d + 1 \<le> page_write_executed d' else d' = d"
    by (cases res) simp_all
  ultimately show ?thesis using r(2,3,4) by blast
next
  case InPlace
  from in_place_policy_step [OF inv ppb rng, of "policy_with pol (raw_write_page m pol)"]
  obtain d' where r: "in_place_full_block_write_policy
        (raw_write_page_body (policy_with pol (raw_write_page m pol))) g block page d = Inr (True, d')"
      "disk_inv g d'"
      "host_page_write_request d' = host_page_write_request d"
      "page_write_failed d' = page_write_failed d"
      "page_write_executed d + 1 \<le> page_write_executed d'" by blast
  have "full_block_write_policy (Suc m) pol g block page d = Inr (True, d')"
    using r(1) InPlace by (simp add: full_block_write_policy_def policy_with_def)
  moreover from r(5) have "if True then page_write_executed d + 1 \<le> page_write_executed d' else d' = d"
    by simp
  ultimately show ?thesis using r(2,3,4) by blast
qed

lemma raw_write_page_step:
  assumes inv: "disk_inv g d" and ppb: "0 \<le> pages_per_block g"
    and rng: "0 \<le> block" "block < total_blocks g" "0 \<le> page" "page < pages_per_block g"
  shows "\<exists>res d'. raw_write_page (Suc (Suc m)) pol g block page d = Inr (res, d') \<and>
           disk_inv g d' \<and>
           host_page_write_request d' = host_page_write_request d \<and>
           (if res
            then page_write_executed d + 1 \<le> page_write_executed d' \<and>
                 page_write_failed d' = page_write_failed d
            else d' = (if get_page d block page = Inr PAGE_IN_USE
                       then d\<lparr>page_write_failed := page_write_failed d + 1\<rparr> else d))"
proof -
  let ?fbwp = "policy_with pol (raw_write_page (Suc m) pol)"
  have unfold: "raw_write_page (Suc (Suc m)) pol g block page d
                = raw_write_page_body ?fbwp g block page d" by simp
  from disk_inv_block [OF inv rng(1,2)] obtain blk
    where blk: "ftl d block = Some blk" "block_inv g blk" by auto
  from block_inv_present [OF blk(2) rng(3,4)] obtain s where s: "pages blk page = Some s" by auto
  have gp: "get_page d block page = Inr s" using blk(1) s by (rule get_page_Some)
  show ?thesis
  proof (cases s)
    case PAGE_EMPTY
    let ?d' = "(upd_block d block (blk\<lparr>pages := (pages blk)(page \<mapsto> PAGE_IN_USE),
                                       empty := empty blk - 1\<rparr>))
                  \<lparr>elapsed_time := elapsed_time d + write_page_time g,
                   page_write_executed := page_write_executed d + 1\<rparr>"
    have "raw_write_page_body ?fbwp g block page d = Inr (True, ?d')"
      using rng blk(1) s [unfolded PAGE_EMPTY] by (rule raw_write_page_empty)
    moreover have "disk_inv g ?d'"
      using block_inv_write_empty [OF blk(2) rng(3,4) s [unfolded PAGE_EMPTY]] inv
      by (simp add: disk_inv_upd_block)
    ultimately show ?thesis
      unfolding unfold by (intro exI [of _ True] exI [of _ ?d']) simp
  next
    case PAGE_DIRTY
    have "raw_write_page (Suc (Suc m)) pol g block page d = Inr (False, d)"
      using rng gp [unfolded PAGE_DIRTY] by (rule raw_write_page_dirty)
    with inv gp PAGE_DIRTY show ?thesis
      by (intro exI [of _ False] exI [of _ d]) simp
  next
    case PAGE_IN_USE
    note use = s [unfolded PAGE_IN_USE]
    show ?thesis
    proof (cases "empty blk \<le> 0")
      case True
      have guard: "pol = Naive \<longrightarrow> get_page d block page = Inr PAGE_IN_USE"
        using gp PAGE_IN_USE by simp
      from policy_step [OF inv ppb rng guard, of m] obtain res d1
        where r: "full_block_write_policy (Suc m) pol g block page d = Inr (res, d1)"
          "disk_inv g d1"
          "host_page_write_request d1 = host_page_write_request d"
          "page_write_failed d1 = page_write_failed d"
          "if res then page_write_executed d + 1 \<le> page_write_executed d1 else d1 = d" by blast
      have f: "?fbwp g block page d = Inr (res, d1)"
        using r(1) by (simp add: full_block_write_policy_def)
      have w: "raw_write_page_body ?fbwp g block page d =
               (if res then Inr (True, d1)
                else Inr (False, d1\<lparr>page_write_failed := page_write_failed d1 + 1\<rparr>))"
        unfolding raw_write_page_full [OF rng blk(1) use True, of ?fbwp] f by simp
      show ?thesis
      proof (cases res)
        case True
        with w r show ?thesis
          unfolding unfold by (intro exI [of _ True] exI [of _ d1]) simp
      next
        case False
        with r(5) have "d1 = d" by simp
        with w False inv gp PAGE_IN_USE show ?thesis
          unfolding unfold
          by (intro exI [of _ False] exI [of _ "d\<lparr>page_write_failed := page_write_failed d + 1\<rparr>"])
             simp
      qed
    next
      case False
      then have pos: "empty blk > 0" by simp
      from get_empty_page_inv [OF rng(1,2) blk pos] obtain q
        where q: "get_empty_page g block d = Inr q" "0 \<le> q" "q < pages_per_block g"
          "pages blk q = Some PAGE_EMPTY" by blast
      let ?d' = "(upd_block d block
                    (blk\<lparr>pages := (pages blk)(page \<mapsto> PAGE_DIRTY, q \<mapsto> PAGE_IN_USE),
                         empty := empty blk - 1, dirty := dirty blk + 1\<rparr>))
                  \<lparr>elapsed_time := elapsed_time d + write_page_time g,
                   page_write_executed := page_write_executed d + 1\<rparr>"
      have "raw_write_page_body ?fbwp g block page d = Inr (True, ?d')"
        using rng blk(1) use pos q(1) by (rule raw_write_page_room)
      moreover have "disk_inv g ?d'"
        using block_inv_write_room [OF blk(2) rng(3,4) use q(2,3,4)] inv
        by (simp add: disk_inv_upd_block)
      ultimately show ?thesis
        unfolding unfold by (intro exI [of _ True] exI [of _ ?d']) simp
    qed
  qed
qed

lemma host_write_page_unfold:
  assumes "0 \<le> block" and "block < total_blocks g" and "0 \<le> page" and "page < pages_per_block g"
    and "raw_write_page n pol g block page d = Inr (res, d1)"
  shows "host_write_page n pol g block page d =
     Inr (res, if res then d1\<lparr>host_page_write_request := host_page_write_request d1 + 1\<rparr>
               else d1)"
  using assms by (simp add: host_write_page_def)

lemma reachable_inv:
  assumes "reachable n pol g d" and n: "2 \<le> n" and ppb: "0 \<le> pages_per_block g"
  shows "disk_inv g d \<and> host_page_write_request d \<le> page_write_executed d"
proof -
  from n obtain m where m: "n = Suc (Suc m)"
    by (metis Suc_le_D numeral_2_eq_2 Suc_le_mono)
  from assms(1) show ?thesis
  proof (induction rule: reachable.induct)
    case constructed
    show ?case using disk_inv_init [OF ppb] by (simp add: BaseNANDDisk_init_def)
  next
    case (raw_write d block page res d')
    then have inv: "disk_inv g d" and le: "host_page_write_request d \<le> page_write_executed d"
      by simp_all
    from raw_write_page_step [OF inv ppb raw_write(2-5), of m pol] raw_write(6)
    show ?case unfolding m using le by (cases res) auto
  next
    case (host_write d block page res d')
    then have inv: "disk_inv g d" and le: "host_page_write_request d \<le> page_write_executed d"
      by simp_all
    from raw_write_page_step [OF inv ppb host_write(2-5), of m pol] obtain res1 d1
      where r: "raw_write_page n pol g block page d = Inr (res1, d1)" "disk_inv g d1"
        "host_page_write_request d1 = host_page_write_request d"
        "if res1
            then page_write_executed d + 1 \<le> page_write_executed d1 \<and>
                 page_write_failed d1 = page_write_failed d
            else d1 = (if get_page d block page = Inr PAGE_IN_USE
                       then d\<lparr>page_write_failed := page_write_failed d + 1\<rparr> else d)"
      unfolding m by blast
    from host_write_page_unfold [OF host_write(2-5) r(1)] host_write(6)
    have "res = res1"
      "d' = (if res1 then d1\<lparr>host_page_write_request := host_page_write_request d1 + 1\<rparr> else d1)"
      by simp_all
    with r(2,3,4) le show ?case by (cases res1) auto
  next
    case (raw_read d block page res d')
    then have inv: "disk_inv g d" and le: "host_page_write_request d \<le> page_write_executed d"
      by simp_all
    from raw_read_page_step [OF inv raw_read(2-5)] raw_read(6) le show ?case by auto
  next
    case (raw_erase d block res d')
    then have inv: "disk_inv g d" and le: "host_page_write_request d \<le> page_write_executed d"
      by simp_all
    from raw_erase_block_step [OF inv ppb raw_erase(2,3)] raw_erase(4) le show ?case by auto
  next
    case (relocate d block page res d')
    then have inv: "disk_inv g d" and le: "host_page_write_request d \<le> page_write_executed d"
      by simp_all
    from policy_step [OF inv ppb relocate(2-6), of "Suc m"] relocate(7) le
    show ?case unfolding m by (cases res) auto
  qed
qed

subsection \<open>The example disks\<close>

lemmas run_defs =
  raw_write_page_body_def policy_with_def full_block_write_policy_def host_write_page_def
  naive_full_block_write_policy_def in_place_full_block_write_policy_def
  raw_read_page_def raw_read_page_with_status_def raw_erase_block_def get_empty_page_def
  check_block_def check_page_def get_page_def get_block_def set_page_def add_empty_def
  add_dirty_def fun_eq_iff numeral_2_eq_2

lemma init_small:
  "BaseNANDDisk_init small_geometry =
     \<lparr>elapsed_time = 0, host_page_write_request = 0, page_write_executed = 0,
      page_write_failed = 0, host_page_read_request = 0, page_read_executed = 0,
      block_erase_executed = 0,
      ftl = [0 \<mapsto> \<lparr>pages = [0 \<mapsto> PAGE_EMPTY, 1 \<mapsto> PAGE_EMPTY], empty = 2, dirty = 0\<rparr>,
             1 \<mapsto> \<lparr>pages = [0 \<mapsto> PAGE_EMPTY, 1 \<mapsto> PAGE_EMPTY], empty = 2, dirty = 0\<rparr>]\<rparr>"
  by (simp add: BaseNANDDisk_init_def init_block_def small_geometry_def)

lemma init_one_page:
  "BaseNANDDisk_init one_page_geometry =
     \<lparr>elapsed_time = 0, host_page_write_request = 0, page_write_executed = 0,
      page_write_failed = 0, host_page_read_request = 0, page_read_executed = 0,
      block_erase_executed = 0,
      ftl = [0 \<mapsto> \<lparr>pages = [0 \<mapsto> PAGE_EMPTY], empty = 1, dirty = 0\<rparr>,
             1 \<mapsto> \<lparr>pages = [0 \<mapsto> PAGE_EMPTY], empty = 1, dirty = 0\<rparr>]\<rparr>"
  by (simp add: BaseNANDDisk_init_def init_block_def one_page_geometry_def)

lemma small_write_1:
  "raw_write_page 2 pol small_geometry 0 0 (BaseNANDDisk_init small_geometry)
   = Inr (True, small_disk_1)"
  unfolding init_small
  by (simp add: run_defs small_geometry_def small_disk_1_def)

lemma small_write_2:
  "raw_write_page 2 pol small_geometry 0 1 small_disk_1 = Inr (True, small_disk_2)"
  by (simp add: run_defs small_geometry_def small_disk_1_def small_disk_2_def)

lemma reachable_small_disk_1: "reachable 2 pol small_geometry small_disk_1"
  by (rule reachable.raw_write [OF reachable.constructed _ _ _ _ small_write_1])
     (simp_all add: small_geometry_def)

lemma reachable_small_disk_2: "reachable 2 pol small_geometry small_disk_2"
  by (rule reachable.raw_write [OF reachable_small_disk_1 _ _ _ _ small_write_2])
     (simp_all add: small_geometry_def)

lemma one_page_write_1:
  "host_write_page 2 Naive one_page_geometry 0 0 (BaseNANDDisk_init one_page_geometry)
   = Inr (True, \<lparr>elapsed_time = 250, host_page_write_request = 1, page_write_executed = 1,
      page_write_failed = 0, host_page_read_request = 0, page_read_executed = 0,
      block_erase_executed = 0,
      ftl = [0 \<mapsto> \<lparr>pages = [0 \<mapsto> PAGE_IN_USE], empty = 0, dirty = 0\<rparr>,
             1 \<mapsto> \<lparr>pages = [0 \<mapsto> PAGE_EMPTY], empty = 1, dirty = 0\<rparr>]\<rparr>)"
  unfolding init_one_page
  by (simp add: run_defs one_page_geometry_def)

lemma one_page_write_2:
  "host_write_page 2 Naive one_page_geometry 0 0
     \<lparr>elapsed_time = 250, host_page_write_request = 1, page_write_executed = 1,
      page_write_failed = 0, host_page_read_request = 0, page_read_executed = 0,
      block_erase_executed = 0,
      ftl = [0 \<mapsto> \<lparr>pages = [0 \<mapsto> PAGE_IN_USE], empty = 0, dirty = 0\<rparr>,
             1 \<mapsto> \<lparr>pages = [0 \<mapsto> PAGE_EMPTY], empty = 1, dirty = 0\<rparr>]\<rparr>
   = Inr (True, one_page_disk_full)"
  by (simp add: run_defs one_page_geometry_def one_page_disk_full_def upto.simps py_range_def)

lemma reachable_one_page_disk_full: "reachable 2 Naive one_page_geometry one_page_disk_full"
  by (rule reachable.host_write [OF reachable.host_write [OF reachable.constructed _ _ _ _ one_page_write_1]
        _ _ _ _ one_page_write_2])
     (simp_all add: one_page_geometry_def)

lemma disk_inv_small_disk_2: "disk_inv small_geometry small_disk_2"
  by (simp add: disk_inv_def block_inv_def count_pages_def small_geometry_def small_disk_2_def)

lemma disk_inv_one_page_disk_full: "disk_inv one_page_geometry one_page_disk_full"
  by (simp add: disk_inv_def block_inv_def count_pages_def one_page_geometry_def
      one_page_disk_full_def)

lemma in_place_writes_in_use:
  assumes "pages blk page = Some PAGE_IN_USE"
  shows "in_place_writes g blk page = count_pages g blk PAGE_IN_USE"
  unfolding in_place_writes_def count_pages_def
  by (rule arg_cong [where f = "\<lambda>x. int (length x)"], rule filter_cong) (use assms in auto)

subsection \<open>Decimal rounding\<close>

lemma digits_bounds:
  "0 < n \<Longrightarrow> 10 ^ (digits n - 1) \<le> n \<and> n < 10 ^ digits n"
proof (induction n rule: digits.induct)
  case (1 n)
  show ?case
  proof (cases "n < 10")
    case True
    with "1.prems" show ?thesis by (simp add: digits.simps [of n])
  next
    case False
    then have pos: "0 < n div 10" by simp
    from "1.IH" [OF False pos]
    have ih: "10 ^ (digits (n div 10) - 1) \<le> n div 10" "n div 10 < 10 ^ digits (n div 10)"
      by simp_all
    have d: "digits n = Suc (digits (n div 10))" using False by (simp add: digits.simps [of n])
    have dpos: "0 < digits (n div 10)" by (subst digits.simps) simp
    from ih(1) have "10 * 10 ^ (digits (n div 10) - 1) \<le> n" by simp
    moreover have "10 * 10 ^ (digits (n div 10) - 1) = (10::nat) ^ digits (n div 10)"
      using dpos by (metis Suc_pred' power_Suc)
    moreover from ih(2) have "n < 10 * 10 ^ digits (n div 10)" by simp
    ultimately show ?thesis by (simp add: d)
  qed
qed

lemma digits_pos: "0 < digits n"
  by (subst digits.simps) simp

lemma round_half_even_error: "\<bar>of_int (round_half_even x) - x\<bar> \<le> 1 / 2"
proof -
  have "of_int \<lfloor>x\<rfloor> \<le> x" "x < of_int \<lfloor>x\<rfloor> + 1" by linarith+
  then show ?thesis
    by (auto simp: round_half_even_def Let_def)
qed

lemma round_half_even_of_int [simp]: "round_half_even (of_int z) = z"
  by (simp add: round_half_even_def)

lemma digits_bounds_rat:
  assumes "a \<noteq> 0"
  shows "(10::rat) powi (int (digits (nat \<bar>a\<bar>)) - 1) \<le> of_int \<bar>a\<bar>"
    and "of_int \<bar>a\<bar> < (10::rat) powi int (digits (nat \<bar>a\<bar>))"
proof -
  let ?n = "nat \<bar>a\<bar>"
  from assms have pos: "0 < ?n" by simp
  from digits_bounds [OF pos] have 1: "10 ^ (digits ?n - 1) \<le> ?n" and 2: "?n < 10 ^ digits ?n"
    by simp_all
  have n: "(of_nat ?n :: rat) = of_int \<bar>a\<bar>" by simp
  from 1 have "(of_nat (10 ^ (digits ?n - 1)) :: rat) \<le> of_nat ?n" by (rule of_nat_mono)
  then have le: "(10::rat) ^ (digits ?n - 1) \<le> of_int \<bar>a\<bar>" unfolding n by simp
  have e: "int (digits ?n) - 1 = int (digits ?n - 1)" using digits_pos [of ?n] by linarith
  show "(10::rat) powi (int (digits ?n) - 1) \<le> of_int \<bar>a\<bar>"
    unfolding e power_int_of_nat by (rule le)
  from 2 have "(of_nat ?n :: rat) < of_nat (10 ^ digits ?n)" by (simp only: of_nat_less_iff)
  then show "of_int \<bar>a\<bar> < (10::rat) powi int (digits ?n)" unfolding n by simp
qed

lemma adjusted_bounds:
  assumes "a \<noteq> 0" and "b \<noteq> 0"
  shows "(10::rat) powi adjusted a b * of_int \<bar>b\<bar> \<le> of_int \<bar>a\<bar>"
    and "of_int \<bar>a\<bar> < (10::rat) powi (adjusted a b + 1) * of_int \<bar>b\<bar>"
proof -
  let ?da = "int (digits (nat \<bar>a\<bar>))" and ?db = "int (digits (nat \<bar>b\<bar>))"
  let ?k = "?da - ?db"
  let ?A = "of_int \<bar>a\<bar> :: rat" and ?B = "of_int \<bar>b\<bar> :: rat"
  note a = digits_bounds_rat [OF assms(1)] and b = digits_bounds_rat [OF assms(2)]
  have Bpos: "0 < ?B" using assms(2) by simp
  have p: "0 < (10::rat) powi m" for m by simp
  have up: "?A < 10 powi (?k + 1) * ?B"
  proof -
    have "(10::rat) powi ((?k + 1) + (?db - 1)) = 10 powi (?k + 1) * 10 powi (?db - 1)"
      by (rule power_int_add) simp
    moreover have "(?k + 1) + (?db - 1) = ?da" by linarith
    ultimately have "10 powi (?k + 1) * (10::rat) powi (?db - 1) = 10 powi ?da"
      by (simp only:)
    moreover have "10 powi (?k + 1) * (10::rat) powi (?db - 1) \<le> 10 powi (?k + 1) * ?B"
      using b(1) by (intro mult_left_mono) simp_all
    ultimately show ?thesis using a(2) by linarith
  qed
  have low: "10 powi (?k - 1) * ?B \<le> ?A"
  proof -
    have "(10::rat) powi ((?k - 1) + ?db) = 10 powi (?k - 1) * 10 powi ?db"
      by (rule power_int_add) simp
    moreover have "(?k - 1) + ?db = ?da - 1" by linarith
    ultimately have "10 powi (?k - 1) * (10::rat) powi ?db = 10 powi (?da - 1)"
      by (simp only:)
    moreover have "10 powi (?k - 1) * ?B \<le> 10 powi (?k - 1) * (10::rat) powi ?db"
      using b(2) by (intro mult_left_mono) simp_all
    ultimately show ?thesis using a(1) by linarith
  qed
  have adj: "adjusted a b = (if ?B * 10 powi ?k \<le> ?A then ?k else ?k - 1)"
    by (simp only: adjusted_def Let_def)
  show "(10::rat) powi adjusted a b * of_int \<bar>b\<bar> \<le> of_int \<bar>a\<bar>"
  proof (cases "?B * 10 powi ?k \<le> ?A")
    case True
    then have "adjusted a b = ?k" unfolding adj by (simp only: if_True)
    with True show ?thesis by (simp only: mult.commute)
  next
    case False
    then have "adjusted a b = ?k - 1" unfolding adj by (simp only: if_False)
    with low show ?thesis by (simp only:)
  qed
  show "of_int \<bar>a\<bar> < (10::rat) powi (adjusted a b + 1) * of_int \<bar>b\<bar>"
  proof (cases "?B * 10 powi ?k \<le> ?A")
    case True
    then have "adjusted a b = ?k" unfolding adj by (simp only: if_True)
    with up show ?thesis by (simp only:)
  next
    case False
    then have e: "adjusted a b = ?k - 1" unfolding adj by (simp only: if_False)
    have "?k - 1 + 1 = ?k" by linarith
    with False show ?thesis unfolding e by (simp only: not_le mult.commute)
  qed
qed

lemma round_quotient_error:
  assumes "b \<noteq> 0"
  shows "\<bar>round_quotient prec a b - of_int a / of_int b\<bar> * 10 ^ prec
           \<le> 5 * \<bar>of_int a / of_int b\<bar>"
proof (cases "a = 0")
  case True
  then show ?thesis by (simp add: round_quotient_def)
next
  case False
  let ?x = "of_int a / of_int b :: rat"
  let ?e = "adjusted a b"
  let ?s = "(10::rat) powi (int prec - 1 - ?e)"
  let ?r = "of_int (round_half_even (?x * ?s)) / ?s"
  have r: "round_quotient prec a b = ?r"
    using False by (simp only: round_quotient_def Let_def if_False)
  have spos: "0 < ?s" by simp
  have Bpos: "0 < (of_int \<bar>b\<bar> :: rat)" using assms by simp
  have "?r - ?x = (of_int (round_half_even (?x * ?s)) - ?x * ?s) / ?s"
    using spos by (simp add: field_simps)
  then have "\<bar>?r - ?x\<bar> = \<bar>of_int (round_half_even (?x * ?s)) - ?x * ?s\<bar> / ?s"
    using spos by (simp only: abs_divide abs_of_pos)
  also have "\<dots> \<le> (1 / 2) / ?s"
    using round_half_even_error [of "?x * ?s"] spos by (intro divide_right_mono) simp_all
  finally have err: "\<bar>?r - ?x\<bar> * ?s \<le> 1 / 2"
    using spos by (simp add: field_simps)
  from adjusted_bounds(1) [OF False assms] have "10 powi ?e * of_int \<bar>b\<bar> \<le> (of_int \<bar>a\<bar> :: rat)" .
  then have "10 powi ?e \<le> (of_int \<bar>a\<bar> :: rat) / of_int \<bar>b\<bar>"
    using Bpos by (simp add: pos_le_divide_eq)
  then have xlow: "10 powi ?e \<le> \<bar>?x\<bar>" by simp
  have "(10::rat) powi ((int prec - 1 - ?e) + (?e + 1)) = ?s * 10 powi (?e + 1)"
    by (rule power_int_add) simp
  moreover have "(int prec - 1 - ?e) + (?e + 1) = int prec" by linarith
  ultimately have "?s * 10 powi (?e + 1) = (10::rat) powi int prec" by (simp only:)
  then have sp: "?s * (10 * 10 powi ?e) = (10::rat) ^ prec"
    by (simp add: power_int_add mult.commute)
  have "\<bar>?r - ?x\<bar> * 10 ^ prec = (\<bar>?r - ?x\<bar> * ?s) * (10 * 10 powi ?e)"
    unfolding sp [symmetric] by (simp only: mult.assoc)
  also have "\<dots> \<le> (1 / 2) * (10 * 10 powi ?e)"
    using err by (intro mult_right_mono) simp_all
  also have "\<dots> = 5 * 10 powi ?e" by simp
  also have "\<dots> \<le> 5 * \<bar>?x\<bar>" using xlow by simp
  finally show ?thesis unfolding r .
qed

lemma round_quotient_exact:
  assumes "b \<noteq> 0" and "b dvd a" and "\<bar>a div b\<bar> < 10 ^ prec"
  shows "round_quotient prec a b = of_int (a div b)"
proof (cases "a = 0")
  case True
  then show ?thesis by (simp add: round_quotient_def)
next
  case False
  let ?q = "a div b"
  let ?e = "adjusted a b"
  from assms(2) have a: "a = b * ?q" by simp
  then have x: "(of_int a / of_int b :: rat) = of_int ?q"
    using assms(1) by (metis nonzero_mult_div_cancel_left of_int_eq_0_iff of_int_mult)
  have Bpos: "0 < (of_int \<bar>b\<bar> :: rat)" using assms(1) by simp
  from adjusted_bounds(1) [OF False assms(1)]
  have "10 powi ?e \<le> (of_int \<bar>a\<bar> :: rat) / of_int \<bar>b\<bar>"
    using Bpos by (simp add: pos_le_divide_eq)
  also have "\<dots> = \<bar>of_int a / of_int b :: rat\<bar>" by simp
  also have "\<dots> = of_int \<bar>?q\<bar>" unfolding x by simp
  also have "\<dots> < (10::rat) powi int prec"
    using assms(3) by (metis of_int_less_iff of_int_numeral of_int_power power_int_of_nat)
  finally have "(10::rat) powi ?e < 10 powi int prec" .
  then have "?e < int prec"
    by (intro power_int_le_imp_less_exp [of "10::rat"]) simp_all
  then obtain k :: nat where k: "int prec - 1 - ?e = int k"
    by (metis add_diff_cancel_left' diff_diff_eq2 nonneg_int_cases zle_diff1_eq diff_ge_0_iff_ge)
  have "round_quotient prec a b
        = of_int (round_half_even (of_int ?q * 10 ^ k)) / 10 ^ k"
    using False by (simp only: round_quotient_def Let_def if_False k x power_int_of_nat)
  also have "(of_int ?q * 10 ^ k :: rat) = of_int (?q * 10 ^ k)" by simp
  also have "of_int (round_half_even (of_int (?q * 10 ^ k))) / (10 ^ k :: rat) = of_int ?q"
    by (simp only: round_half_even_of_int) simp
  finally show ?thesis .
qed

lemma round_int_exact:
  assumes "1 \<le> prec" and "\<bar>n\<bar> < 10 ^ prec"
  shows "round_int prec n = n"
proof -
  have "digits (nat \<bar>n\<bar>) \<le> prec"
  proof (cases "n = 0")
    case True
    with assms(1) show ?thesis by (simp add: digits.simps)
  next
    case False
    then have "0 < nat \<bar>n\<bar>" by simp
    from digits_bounds [OF this] have "10 ^ (digits (nat \<bar>n\<bar>) - 1) \<le> nat \<bar>n\<bar>" by simp
    moreover from assms(2) have "nat \<bar>n\<bar> < 10 ^ prec"
      by (metis nat_less_iff abs_ge_zero of_nat_numeral of_nat_power)
    ultimately have "(10::nat) ^ (digits (nat \<bar>n\<bar>) - 1) < 10 ^ prec" by linarith
    then have "digits (nat \<bar>n\<bar>) - 1 < prec" by simp
    then show ?thesis by linarith
  qed
  then show ?thesis by (simp add: round_int_def)
qed

lemma round_half_even_nearest: "nearest_even x (round_half_even x)"
proof -
  have "of_int \<lfloor>x\<rfloor> \<le> x" "x < of_int \<lfloor>x\<rfloor> + 1" by linarith+
  then show ?thesis
    by (auto simp: nearest_even_def round_half_even_def Let_def)
qed

lemma nearest_even_unique:
  assumes "nearest_even y c" and "nearest_even y c'"
  shows "c = c'"
proof (rule ccontr)
  assume ne: "c \<noteq> c'"
  from assms have le: "\<bar>of_int c - y\<bar> \<le> 1 / 2" "\<bar>of_int c' - y\<bar> \<le> 1 / 2"
    by (auto simp: nearest_even_def)
  then have "\<bar>(of_int c :: rat) - of_int c'\<bar> \<le> 1" by linarith
  then have "\<bar>(of_int (c - c') :: rat)\<bar> \<le> of_int 1" by simp
  then have d: "\<bar>c - c'\<bar> \<le> 1" by (simp only: of_int_abs [symmetric] of_int_le_iff)
  with ne have d1: "\<bar>c - c'\<bar> = 1" by linarith
  then have "\<bar>(of_int c :: rat) - of_int c'\<bar> = 1"
    by (metis of_int_1 of_int_abs of_int_diff)
  with le have "\<bar>of_int c - y\<bar> = 1 / 2" "\<bar>of_int c' - y\<bar> = 1 / 2" by linarith+
  with assms have "even c" "even c'" by (auto simp: nearest_even_def)
  then have "even (c - c')" by simp
  with d1 show False by presburger
qed

lemma powi_less_cancel:
  assumes "(10::rat) powi m < 10 powi n"
  shows "m < n"
proof (rule ccontr)
  assume "\<not> m < n"
  then have "n \<le> m" by simp
  then have "(10::rat) powi n \<le> 10 powi m" by (rule power_int_increasing) simp
  with assms show False by linarith
qed

lemma rounded_at_unique:
  assumes "rounded_at prec x e c r" and "rounded_at prec x e' c' r'"
  shows "r = r'"
proof (cases "x = 0")
  case True
  with assms show ?thesis by (simp add: rounded_at_def)
next
  case False
  with assms have 1: "10 powi e \<le> \<bar>x\<bar>" "\<bar>x\<bar> < 10 powi (e + 1)"
      "nearest_even (x * 10 powi (int prec - 1 - e)) c"
      "r = of_int c * 10 powi (e + 1 - int prec)"
    and 2: "10 powi e' \<le> \<bar>x\<bar>" "\<bar>x\<bar> < 10 powi (e' + 1)"
      "nearest_even (x * 10 powi (int prec - 1 - e')) c'"
      "r' = of_int c' * 10 powi (e' + 1 - int prec)"
    by (simp_all add: rounded_at_def)
  from 1(1) 2(2) have "(10::rat) powi e < 10 powi (e' + 1)" by linarith
  then have "e < e' + 1" by (rule powi_less_cancel)
  moreover from 2(1) 1(2) have "(10::rat) powi e' < 10 powi (e + 1)" by linarith
  then have "e' < e + 1" by (rule powi_less_cancel)
  ultimately have e: "e' = e" by linarith
  from 1(3) 2(3) have "c = c'" unfolding e by (rule nearest_even_unique)
  with 1(4) 2(4) e show ?thesis by simp
qed

lemma round_quotient_rounded:
  assumes "b \<noteq> 0"
  shows "rounded_at prec (of_int a / of_int b) (adjusted a b)
           (round_half_even (of_int a / of_int b * 10 powi (int prec - 1 - adjusted a b)))
           (round_quotient prec a b)"
proof (cases "a = 0")
  case True
  then show ?thesis by (simp add: rounded_at_def round_quotient_def)
next
  case False
  let ?x = "of_int a / of_int b :: rat"
  let ?e = "adjusted a b"
  let ?s = "(10::rat) powi (int prec - 1 - ?e)"
  let ?c = "round_half_even (?x * ?s)"
  have r: "round_quotient prec a b = of_int ?c / ?s"
    using False by (simp only: round_quotient_def Let_def if_False)
  have x0: "?x \<noteq> 0" using False assms by simp
  have Bpos: "0 < (of_int \<bar>b\<bar> :: rat)" using assms by simp
  have ax: "\<bar>?x\<bar> = of_int \<bar>a\<bar> / of_int \<bar>b\<bar>" by simp
  from adjusted_bounds(1) [OF False assms] have low: "10 powi ?e \<le> \<bar>?x\<bar>"
    unfolding ax using Bpos by (simp add: pos_le_divide_eq)
  from adjusted_bounds(2) [OF False assms] have up: "\<bar>?x\<bar> < 10 powi (?e + 1)"
    unfolding ax using Bpos by (simp add: pos_divide_less_eq)
  have "- (int prec - 1 - ?e) = ?e + 1 - int prec" by linarith
  then have "inverse ?s = 10 powi (?e + 1 - int prec)"
    by (simp only: power_int_minus [symmetric])
  then have val: "of_int ?c / ?s = of_int ?c * 10 powi (?e + 1 - int prec)"
    by (simp only: divide_inverse)
  from x0 low up round_half_even_nearest [of "?x * ?s"] val show ?thesis
    unfolding rounded_at_def r by (simp only: if_False simp_thms)
qed

lemma round_int_rounded:
  assumes "1 \<le> prec"
  shows "\<exists>c. rounded_at prec (of_int n) (int (digits (nat \<bar>n\<bar>)) - 1) c (of_int (round_int prec n))"
proof (cases "n = 0")
  case True
  with assms have "round_int prec n = 0" by (simp add: round_int_def digits.simps)
  with True show ?thesis by (simp add: rounded_at_def)
next
  case False
  let ?x = "of_int n :: rat"
  let ?d = "digits (nat \<bar>n\<bar>)"
  let ?e = "int ?d - 1"
  have x0: "?x \<noteq> 0" using False by simp
  have ax: "\<bar>?x\<bar> = of_int \<bar>n\<bar>" by simp
  from digits_bounds_rat(1) [OF False] have low: "10 powi ?e \<le> \<bar>?x\<bar>" unfolding ax .
  have "?e + 1 = int ?d" by linarith
  with digits_bounds_rat(2) [OF False] have up: "\<bar>?x\<bar> < 10 powi (?e + 1)"
    unfolding ax by (simp only:)
  show ?thesis
  proof (cases "?d \<le> prec")
    case True
    then have r: "round_int prec n = n" by (simp add: round_int_def)
    let ?k = "prec - ?d"
    have k: "int prec - 1 - ?e = int ?k" using True by linarith
    have k': "?e + 1 - int prec = - int ?k" using True by linarith
    let ?c = "n * 10 ^ ?k"
    have eq: "?x * 10 powi (int prec - 1 - ?e) = of_int ?c"
      unfolding k power_int_of_nat by simp
    have ne: "nearest_even (?x * 10 powi (int prec - 1 - ?e)) ?c"
      unfolding eq by (simp add: nearest_even_def)
    have "of_int ?c * (10::rat) powi (?e + 1 - int prec) = ?x * (10 ^ ?k * 10 powi (- int ?k))"
      unfolding k' by simp
    also have "(10::rat) ^ ?k * 10 powi (- int ?k) = 1"
      by (simp add: power_int_minus)
    finally have val: "?x = of_int ?c * 10 powi (?e + 1 - int prec)" by simp
    from x0 low up ne val have "rounded_at prec ?x ?e ?c (of_int (round_int prec n))"
      unfolding rounded_at_def r by (simp only: if_False simp_thms)
    then show ?thesis ..
  next
    case False
    let ?k = "?d - prec"
    let ?c = "round_half_even (?x / 10 ^ ?k)"
    from False have r: "round_int prec n = ?c * 10 ^ ?k"
      by (simp add: round_int_def Let_def)
    have k: "int prec - 1 - ?e = - int ?k" using False by linarith
    have k': "?e + 1 - int prec = int ?k" using False by linarith
    have "?x * 10 powi (int prec - 1 - ?e) = ?x / 10 ^ ?k"
      unfolding k by (simp add: power_int_minus divide_inverse)
    with round_half_even_nearest [of "?x / 10 ^ ?k"]
    have ne: "nearest_even (?x * 10 powi (int prec - 1 - ?e)) ?c" by (simp only:)
    have val: "(of_int (round_int prec n) :: rat) = of_int ?c * 10 powi (?e + 1 - int prec)"
      unfolding k' r power_int_of_nat by simp
    from x0 low up ne val have "rounded_at prec ?x ?e ?c (of_int (round_int prec n))"
      unfolding rounded_at_def by (simp only: if_False simp_thms)
    then show ?thesis ..
  qed
qed

lemma round_int_eq_0_iff:
  assumes "1 \<le> prec"
  shows "round_int prec n = 0 \<longleftrightarrow> n = 0"
proof (cases "n = 0")
  case True
  with assms show ?thesis by (simp add: round_int_def digits.simps)
next
  case False
  from round_int_rounded [OF assms, of n] obtain c
    where "rounded_at prec (of_int n) (int (digits (nat \<bar>n\<bar>)) - 1) c (of_int (round_int prec n))"
    by blast
  with False have low: "10 powi (int (digits (nat \<bar>n\<bar>)) - 1) \<le> \<bar>of_int n :: rat\<bar>"
    and ne: "nearest_even (of_int n * 10 powi (int prec - 1 - (int (digits (nat \<bar>n\<bar>)) - 1))) c"
    and r: "(of_int (round_int prec n) :: rat)
              = of_int c * 10 powi (int (digits (nat \<bar>n\<bar>)) - 1 + 1 - int prec)"
    by (simp_all add: rounded_at_def)
  let ?e = "int (digits (nat \<bar>n\<bar>)) - 1"
  let ?s = "(10::rat) powi (int prec - 1 - ?e)"
  have spos: "0 < ?s" by simp
  have "(10::rat) powi ((int prec - 1 - ?e) + ?e) = ?s * 10 powi ?e"
    by (rule power_int_add) simp
  moreover have "(int prec - 1 - ?e) + ?e = int prec - 1" by linarith
  ultimately have "?s * 10 powi ?e = (10::rat) powi (int prec - 1)" by (simp only:)
  moreover have "(1::rat) \<le> 10 powi (int prec - 1)"
    using assms by (intro one_le_power_int) simp_all
  ultimately have "1 \<le> ?s * 10 powi ?e" by (simp only:)
  also have "\<dots> \<le> ?s * \<bar>of_int n :: rat\<bar>"
    using low spos by (intro mult_left_mono) simp_all
  also have "\<dots> = \<bar>of_int n * ?s\<bar>" using spos by (simp add: abs_mult)
  finally have big: "1 \<le> \<bar>of_int n * ?s\<bar>" .
  from ne have "\<bar>of_int c - of_int n * ?s\<bar> \<le> 1 / 2" by (auto simp: nearest_even_def)
  with big have "(of_int c :: rat) \<noteq> 0" by (cases "(of_int c :: rat) = 0") simp_all
  then have "(of_int (round_int prec n) :: rat) \<noteq> 0" unfolding r by simp
  with False show ?thesis by simp
qed

lemma floor_numeral_div_rat:
  "\<lfloor>(numeral a :: rat) / numeral b\<rfloor> = numeral a div numeral b"
  using floor_divide_of_int_eq [of "numeral a" "numeral b", where ?'a = rat] by simp

lemmas decimal_defs =
  write_amplification_def failure_rate_def decimal_div_def decimal_mul_def
  round_quotient_def round_int_def adjusted_def round_half_even_def Let_def
  DECIMAL_PRECISION_def floor_numeral_div_rat digits.simps

subsection \<open>The disks of the ratios\<close>

lemma reachable_small_disk_3: "reachable 2 InPlace small_geometry small_disk_3"
proof -
  have 1: "host_write_page 2 InPlace small_geometry 0 0 (BaseNANDDisk_init small_geometry)
           = Inr (True, small_disk_1\<lparr>host_page_write_request := 1\<rparr>)"
    unfolding init_small by (simp add: run_defs small_geometry_def small_disk_1_def)
  have 2: "host_write_page 2 InPlace small_geometry 0 1
             (small_disk_1\<lparr>host_page_write_request := 1\<rparr>)
           = Inr (True, small_disk_2\<lparr>host_page_write_request := 2\<rparr>)"
    by (simp add: run_defs small_geometry_def small_disk_1_def small_disk_2_def)
  have 3: "host_write_page 2 InPlace small_geometry 0 0
             (small_disk_2\<lparr>host_page_write_request := 2\<rparr>)
           = Inr (True, small_disk_3)"
    by (simp add: run_defs small_geometry_def small_disk_2_def small_disk_3_def)
  have r: "(0::int) \<le> 0" "0 < total_blocks small_geometry" "0 < pages_per_block small_geometry"
    "(0::int) \<le> 1" "1 < pages_per_block small_geometry"
    by (simp_all add: small_geometry_def)
  note s1 = reachable.host_write [OF reachable.constructed r(1,2,1,3) 1]
  note s2 = reachable.host_write [OF s1 r(1,2,4,5) 2]
  show ?thesis by (rule reachable.host_write [OF s2 r(1,2,1,3) 3])
qed

lemma cycled_disk_0:
  "host_write_page 2 pol one_page_geometry 0 0 (BaseNANDDisk_init one_page_geometry)
   = Inr (True, cycled_disk 0)"
  unfolding init_one_page
  by (simp add: run_defs one_page_geometry_def cycled_disk_def)

lemma cycled_disk_erase:
  "raw_erase_block one_page_geometry 0 (cycled_disk k)
   = Inr (True,
       \<lparr>elapsed_time = 1750 * int k + 1750, host_page_write_request = int k + 1,
        page_write_executed = int k + 1, page_write_failed = 0, host_page_read_request = 0,
        page_read_executed = 0, block_erase_executed = int k + 1,
        ftl = [0 \<mapsto> \<lparr>pages = [0 \<mapsto> PAGE_EMPTY], empty = 1, dirty = 0\<rparr>,
               1 \<mapsto> \<lparr>pages = [0 \<mapsto> PAGE_EMPTY], empty = 1, dirty = 0\<rparr>]\<rparr>)"
  by (simp add: run_defs one_page_geometry_def cycled_disk_def)

lemma cycled_disk_write:
  "host_write_page 2 pol one_page_geometry 0 0
     \<lparr>elapsed_time = 1750 * int k + 1750, host_page_write_request = int k + 1,
      page_write_executed = int k + 1, page_write_failed = 0, host_page_read_request = 0,
      page_read_executed = 0, block_erase_executed = int k + 1,
      ftl = [0 \<mapsto> \<lparr>pages = [0 \<mapsto> PAGE_EMPTY], empty = 1, dirty = 0\<rparr>,
             1 \<mapsto> \<lparr>pages = [0 \<mapsto> PAGE_EMPTY], empty = 1, dirty = 0\<rparr>]\<rparr>
   = Inr (True, cycled_disk (Suc k))"
  by (simp add: run_defs one_page_geometry_def cycled_disk_def)

lemma reachable_cycled_disk: "reachable 2 pol one_page_geometry (cycled_disk k)"
proof (induction k)
  case 0
  show ?case
    by (rule reachable.host_write [OF reachable.constructed _ _ _ _ cycled_disk_0])
       (simp_all add: one_page_geometry_def)
next
  case (Suc k)
  have r: "(0::int) \<le> 0" "0 < total_blocks one_page_geometry"
    "0 < pages_per_block one_page_geometry"
    by (simp_all add: one_page_geometry_def)
  note e = reachable.raw_erase [OF Suc r(1,2) cycled_disk_erase]
  show ?case by (rule reachable.host_write [OF e r(1,2,1,3) cycled_disk_write])
qed

lemma reachable_amplification_tie_disk:
  "reachable 2 pol one_page_geometry amplification_tie_disk"
proof -
  have w: "raw_write_page 2 pol one_page_geometry 1 0 (cycled_disk 4095)
           = Inr (True, amplification_tie_disk)"
    by (simp add: run_defs one_page_geometry_def cycled_disk_def amplification_tie_disk_def)
  show ?thesis
    by (rule reachable.raw_write [OF reachable_cycled_disk _ _ _ _ w])
       (simp_all add: one_page_geometry_def)
qed

lemma reachable_failure_tie_disk:
  "reachable 2 Naive one_page_geometry failure_tie_disk"
proof -
  have w1: "host_write_page 2 Naive one_page_geometry 1 0 (cycled_disk 262142)
           = Inr (True, failure_tie_disk\<lparr>page_write_failed := 0\<rparr>)"
    by (simp add: run_defs one_page_geometry_def cycled_disk_def failure_tie_disk_def)
  have w2: "host_write_page 2 Naive one_page_geometry 0 0
              (failure_tie_disk\<lparr>page_write_failed := 0\<rparr>)
           = Inr (False, failure_tie_disk)"
    by (simp add: run_defs one_page_geometry_def failure_tie_disk_def)
  have r: "(0::int) \<le> 0" "0 < total_blocks one_page_geometry"
    "0 < pages_per_block one_page_geometry" "(0::int) \<le> 1" "1 < total_blocks one_page_geometry"
    by (simp_all add: one_page_geometry_def)
  note s1 = reachable.host_write [OF reachable_cycled_disk r(4,5,1,3) w1]
  show ?thesis by (rule reachable.host_write [OF s1 r(1,2,1,3) w2])
qed

section \<open>The claims\<close>

subsection \<open>The first empty page\<close>

text \<open>
  Claim C9. For a block in range whose dictionary has every page of the block, whose
  cached \<^verbatim>\<open>'empty'\<close> counter is positive and which has at least one page of status
  \<open>PAGE_EMPTY\<close>, \<^verbatim>\<open>get_empty_page\<close> returns the smallest page index whose status is
  \<open>PAGE_EMPTY\<close>. It returns a page, so the raise after the scan loop is not reached.
\<close>

theorem get_empty_page_first:
  assumes "0 \<le> block" and "block < total_blocks g"
    and "ftl d block = Some blk" and "empty blk > 0"
    and "list_all (\<lambda>p. pages blk p \<noteq> None) (py_range 0 (pages_per_block g))"
    and "0 \<le> p0" and "p0 < pages_per_block g" and "pages blk p0 = Some PAGE_EMPTY"
  shows "\<exists>p. get_empty_page g block d = Inr p \<and> 0 \<le> p \<and> p < pages_per_block g \<and>
             pages blk p = Some PAGE_EMPTY \<and>
             (\<forall>q. 0 \<le> q \<and> q < p \<longrightarrow> pages blk q \<noteq> Some PAGE_EMPTY)"
  using assms by (rule get_empty_page_least)

theorem get_empty_page_first_witness:
  "\<exists>p. get_empty_page small_geometry 0 small_disk_1 = Inr p \<and> 0 \<le> p \<and>
       p < pages_per_block small_geometry \<and>
       pages \<lparr>pages = [0 \<mapsto> PAGE_IN_USE, 1 \<mapsto> PAGE_EMPTY], empty = 1, dirty = 0\<rparr> p
         = Some PAGE_EMPTY \<and>
       (\<forall>q. 0 \<le> q \<and> q < p \<longrightarrow>
          pages \<lparr>pages = [0 \<mapsto> PAGE_IN_USE, 1 \<mapsto> PAGE_EMPTY], empty = 1, dirty = 0\<rparr> q
            \<noteq> Some PAGE_EMPTY)"
  using get_empty_page_first [of 0 small_geometry small_disk_1
      "\<lparr>pages = [0 \<mapsto> PAGE_IN_USE, 1 \<mapsto> PAGE_EMPTY], empty = 1, dirty = 0\<rparr>" 1]
  by (simp add: small_geometry_def small_disk_1_def)

subsection \<open>The cached counters\<close>

text \<open>
  Claim C1, as amended. On every disk reached from the constructor by calls with
  coordinates in range (\<^verbatim>\<open>raw_write_page\<close>, \<^verbatim>\<open>host_write_page\<close>, \<^verbatim>\<open>raw_read_page\<close>,
  \<^verbatim>\<open>raw_erase_block\<close>, the in-place policy on any page, the naive policy on a page in use),
  every block in range satisfies: its \<^verbatim>\<open>'empty'\<close> counter plus its \<^verbatim>\<open>'dirty'\<close> counter plus
  the number of its pages in use is \<^verbatim>\<open>pages_per_block\<close>, and the two counters are the
  numbers of its empty and of its dirty pages. \<^verbatim>\<open>pages_per_block\<close> is not negative and the
  calls of \<^verbatim>\<open>raw_write_page\<close> may nest two deep.
\<close>

theorem counters_consistent:
  assumes "reachable n pol g d" and "2 \<le> n" and "0 \<le> pages_per_block g"
    and "0 \<le> b" and "b < total_blocks g"
  shows "\<exists>blk. ftl d b = Some blk \<and>
           empty blk + dirty blk + count_pages g blk PAGE_IN_USE = pages_per_block g \<and>
           empty blk = count_pages g blk PAGE_EMPTY \<and>
           dirty blk = count_pages g blk PAGE_DIRTY"
proof -
  from reachable_inv [OF assms(1-3)] have "disk_inv g d" by simp
  from disk_inv_block [OF this assms(4,5)] obtain blk
    where blk: "ftl d b = Some blk" "block_inv g blk" by auto
  from count_pages_total [OF block_inv_present_list [OF blk(2)] assms(3)] blk
  show ?thesis by (auto simp: block_inv_def)
qed

text \<open>The witness: the small disk with the in-place policy after two writes, block 0.\<close>

theorem counters_consistent_witness:
  "reachable 2 InPlace small_geometry small_disk_2 \<and>
   (\<exists>blk. ftl small_disk_2 0 = Some blk \<and>
      empty blk + dirty blk + count_pages small_geometry blk PAGE_IN_USE
        = pages_per_block small_geometry \<and>
      empty blk = count_pages small_geometry blk PAGE_EMPTY \<and>
      dirty blk = count_pages small_geometry blk PAGE_DIRTY)"
proof -
  have r: "reachable 2 InPlace small_geometry small_disk_2" by (rule reachable_small_disk_2)
  have "(2::nat) \<le> 2" "0 \<le> pages_per_block small_geometry" "(0::int) \<le> 0"
    "0 < total_blocks small_geometry"
    by (simp_all add: small_geometry_def)
  from counters_consistent [OF r this] r show ?thesis by simp
qed

text \<open>
  Claim C1 as stated also lets the naive policy be called on any page in range. Called on
  page (0, 0) of the new small disk, which is empty, it marks the page dirty and adds one
  to \<^verbatim>\<open>'dirty'\<close> without taking one from \<^verbatim>\<open>'empty'\<close>: block 0 then has \<^verbatim>\<open>'empty' = 2\<close> with
  one empty page, and the three numbers add up to 3 for 2 pages.
\<close>

theorem naive_policy_on_empty_page_breaks_counters:
  "(case full_block_write_policy 2 Naive small_geometry 0 0 (BaseNANDDisk_init small_geometry) of
      Inl e \<Rightarrow> False
    | Inr (res, d') \<Rightarrow>
        (case ftl d' 0 of
           None \<Rightarrow> False
         | Some blk \<Rightarrow>
             empty blk = 2 \<and> dirty blk = 1 \<and> count_pages small_geometry blk PAGE_IN_USE = 0 \<and>
             count_pages small_geometry blk PAGE_EMPTY = 1 \<and>
             empty blk + dirty blk + count_pages small_geometry blk PAGE_IN_USE
               \<noteq> pages_per_block small_geometry))"
  unfolding init_small
  by (simp add: run_defs small_geometry_def count_pages_def)

subsection \<open>Host writes and physical writes\<close>

text \<open>
  Claim C2. On every reachable disk \<^verbatim>\<open>_page_write_executed\<close> is at least
  \<^verbatim>\<open>_host_page_write_request\<close>. For coordinates in range \<^verbatim>\<open>raw_write_page\<close> returns, and
  \<^verbatim>\<open>host_write_page\<close> returns the same truth value on the same disk, with
  \<^verbatim>\<open>_host_page_write_request\<close> one more exactly when the value is \<open>True\<close>; \<^verbatim>\<open>raw_write_page\<close>
  itself does not change that counter. A successful write adds at least one to
  \<^verbatim>\<open>_page_write_executed\<close>. A write that returns \<open>False\<close> on a page in use (the policy
  failed) leaves the disk as it was but for \<^verbatim>\<open>_page_write_failed\<close>, which is one more.
  The reachable disks include those reached by \<^verbatim>\<open>host_write_page\<close>, \<^verbatim>\<open>raw_read_page\<close> and
  \<^verbatim>\<open>raw_erase_block\<close> alone.
\<close>

theorem host_write_accounting:
  assumes "reachable n pol g d" and "2 \<le> n" and "0 \<le> pages_per_block g"
    and "0 \<le> block" and "block < total_blocks g" and "0 \<le> page" and "page < pages_per_block g"
  shows "host_page_write_request d \<le> page_write_executed d \<and>
    (\<exists>res d1.
       raw_write_page n pol g block page d = Inr (res, d1) \<and>
       host_write_page n pol g block page d =
         Inr (res, if res then d1\<lparr>host_page_write_request := host_page_write_request d + 1\<rparr>
                   else d1) \<and>
       host_page_write_request d1 = host_page_write_request d \<and>
       (if res
        then page_write_executed d + 1 \<le> page_write_executed d1 \<and>
             page_write_failed d1 = page_write_failed d
        else d1 = (if get_page d block page = Inr PAGE_IN_USE
                   then d\<lparr>page_write_failed := page_write_failed d + 1\<rparr> else d)))"
proof -
  from assms(2) obtain m where m: "n = Suc (Suc m)"
    by (metis Suc_le_D numeral_2_eq_2 Suc_le_mono)
  from reachable_inv [OF assms(1-3)]
  have inv: "disk_inv g d" and le: "host_page_write_request d \<le> page_write_executed d"
    by simp_all
  from raw_write_page_step [OF inv assms(3-7), of m pol] obtain res d1
    where r: "raw_write_page n pol g block page d = Inr (res, d1)"
      "host_page_write_request d1 = host_page_write_request d"
      "if res
        then page_write_executed d + 1 \<le> page_write_executed d1 \<and>
             page_write_failed d1 = page_write_failed d
        else d1 = (if get_page d block page = Inr PAGE_IN_USE
                   then d\<lparr>page_write_failed := page_write_failed d + 1\<rparr> else d)"
    unfolding m by blast
  from host_write_page_unfold [OF assms(4-7) r(1)] r(2)
  have "host_write_page n pol g block page d =
         Inr (res, if res then d1\<lparr>host_page_write_request := host_page_write_request d + 1\<rparr>
                   else d1)" by simp
  with le r show ?thesis by blast
qed

text \<open>The witness: on the disk of two one-page blocks that is full, a write to the page in
  use fails.\<close>

theorem host_write_accounting_witness:
  "reachable 2 Naive one_page_geometry one_page_disk_full \<and>
   host_page_write_request one_page_disk_full \<le> page_write_executed one_page_disk_full \<and>
   get_page one_page_disk_full 1 0 = Inr PAGE_IN_USE \<and>
   raw_write_page 2 Naive one_page_geometry 1 0 one_page_disk_full
     = Inr (False, one_page_disk_full\<lparr>page_write_failed := 1\<rparr>) \<and>
   host_write_page 2 Naive one_page_geometry 1 0 one_page_disk_full
     = Inr (False, one_page_disk_full\<lparr>page_write_failed := 1\<rparr>)"
proof -
  have r: "reachable 2 Naive one_page_geometry one_page_disk_full"
    by (rule reachable_one_page_disk_full)
  have h: "(2::nat) \<le> 2" "0 \<le> pages_per_block one_page_geometry" "(0::int) \<le> 1"
    "1 < total_blocks one_page_geometry" "(0::int) \<le> 0" "0 < pages_per_block one_page_geometry"
    by (simp_all add: one_page_geometry_def)
  have w: "raw_write_page 2 Naive one_page_geometry 1 0 one_page_disk_full
     = Inr (False, one_page_disk_full\<lparr>page_write_failed := 1\<rparr>)"
    by (simp add: run_defs one_page_geometry_def one_page_disk_full_def)
  have g: "get_page one_page_disk_full 1 0 = Inr PAGE_IN_USE"
    by (simp add: run_defs one_page_disk_full_def)
  from host_write_accounting [OF r h] w g r show ?thesis by auto
qed

subsection \<open>A write to a dirty page\<close>

text \<open>
  Claim C5. For coordinates in range whose page has status \<open>PAGE_DIRTY\<close>, on any disk
  (reachable or not) and with either policy, \<^verbatim>\<open>raw_write_page\<close> and \<^verbatim>\<open>host_write_page\<close>
  return \<open>False\<close> and leave the disk as it was: every page status, every \<^verbatim>\<open>'empty'\<close> and
  \<^verbatim>\<open>'dirty'\<close> counter, every statistics counter and the elapsed time.
\<close>

theorem write_to_dirty_page_changes_nothing:
  assumes "0 \<le> block" and "block < total_blocks g" and "0 \<le> page" and "page < pages_per_block g"
    and "get_page d block page = Inr PAGE_DIRTY"
  shows "raw_write_page (Suc n) pol g block page d = Inr (False, d) \<and>
         host_write_page (Suc n) pol g block page d = Inr (False, d)"
proof -
  have w: "raw_write_page (Suc n) pol g block page d = Inr (False, d)"
    using assms by (rule raw_write_page_dirty)
  from host_write_page_unfold [OF assms(1-4) w] w show ?thesis by simp
qed

text \<open>The witness: page (0, 0) of the full disk of two one-page blocks, which is dirty.\<close>

theorem write_to_dirty_page_changes_nothing_witness:
  "reachable 2 Naive one_page_geometry one_page_disk_full \<and>
   get_page one_page_disk_full 0 0 = Inr PAGE_DIRTY \<and>
   raw_write_page (Suc 1) Naive one_page_geometry 0 0 one_page_disk_full
     = Inr (False, one_page_disk_full) \<and>
   host_write_page (Suc 1) Naive one_page_geometry 0 0 one_page_disk_full
     = Inr (False, one_page_disk_full)"
proof -
  have h: "(0::int) \<le> 0" "0 < total_blocks one_page_geometry" "(0::int) \<le> 0"
    "0 < pages_per_block one_page_geometry"
    by (simp_all add: one_page_geometry_def)
  have g: "get_page one_page_disk_full 0 0 = Inr PAGE_DIRTY"
    by (simp add: run_defs one_page_disk_full_def)
  from write_to_dirty_page_changes_nothing [OF h g, of 1 Naive] g reachable_one_page_disk_full
  show ?thesis by simp
qed

subsection \<open>Erasing a block\<close>

text \<open>
  Claim C8. On every reachable disk and for every block \<open>b\<close> in range, \<^verbatim>\<open>raw_erase_block\<close>
  returns \<open>True\<close>; afterwards every page of \<open>b\<close> is empty and \<^verbatim>\<open>raw_read_page\<close> on it returns
  \<open>False\<close> without changing the disk, the \<^verbatim>\<open>'empty'\<close> counter of \<open>b\<close> is \<^verbatim>\<open>pages_per_block\<close>
  (the number of its empty pages), its \<^verbatim>\<open>'dirty'\<close> counter is 0, the elapsed time has grown
  by \<^verbatim>\<open>erase_block_time\<close> and \<^verbatim>\<open>_block_erase_executed\<close> by one.
\<close>

theorem raw_erase_block_resets:
  assumes "reachable n pol g d" and "2 \<le> n" and "0 \<le> pages_per_block g"
    and "0 \<le> b" and "b < total_blocks g"
  shows "\<exists>d' blk'.
           raw_erase_block g b d = Inr (True, d') \<and> ftl d' b = Some blk' \<and>
           (\<forall>p. 0 \<le> p \<and> p < pages_per_block g \<longrightarrow>
                pages blk' p = Some PAGE_EMPTY \<and> raw_read_page g b p d' = Inr (False, d')) \<and>
           empty blk' = pages_per_block g \<and> dirty blk' = 0 \<and>
           count_pages g blk' PAGE_EMPTY = pages_per_block g \<and>
           elapsed_time d' = elapsed_time d + erase_block_time g \<and>
           block_erase_executed d' = block_erase_executed d + 1"
proof -
  from reachable_inv [OF assms(1-3)] have inv: "disk_inv g d" by simp
  from disk_inv_block [OF inv assms(4,5)] obtain blk
    where blk: "ftl d b = Some blk" "block_inv g blk" by auto
  let ?blk' = "erased_block g blk"
  let ?d' = "(upd_block d b ?blk')
                  \<lparr>block_erase_executed := block_erase_executed d + 1,
                   elapsed_time := elapsed_time d + erase_block_time g\<rparr>"
  have e: "raw_erase_block g b d = Inr (True, ?d')"
    using assms(4,5) blk(1) by (rule raw_erase_block_Some)
  have f: "ftl ?d' b = Some ?blk'" by simp
  have pg: "pages ?blk' p = Some PAGE_EMPTY" if "0 \<le> p" "p < pages_per_block g" for p
    using that by (simp add: pages_erased_block)
  have rd: "raw_read_page g b p ?d' = Inr (False, ?d')" if "0 \<le> p" "p < pages_per_block g" for p
    using raw_read_page_Some [OF assms(4,5) that f pg [OF that]] by simp
  have c: "count_pages g ?blk' PAGE_EMPTY = pages_per_block g"
    using block_inv_erased_block [OF assms(3), of blk]
    by (simp add: block_inv_def erased_block_def)
  have "empty ?blk' = pages_per_block g" "dirty ?blk' = 0" by (simp_all add: erased_block_def)
  with e f pg rd c show ?thesis
    by (intro exI [of _ ?d'] exI [of _ ?blk']) simp
qed

text \<open>The witness: block 0 of the small disk after two writes.\<close>

theorem raw_erase_block_resets_witness:
  "reachable 2 InPlace small_geometry small_disk_2 \<and>
   (\<exists>d' blk'.
      raw_erase_block small_geometry 0 small_disk_2 = Inr (True, d') \<and> ftl d' 0 = Some blk' \<and>
      (\<forall>p. 0 \<le> p \<and> p < pages_per_block small_geometry \<longrightarrow>
           pages blk' p = Some PAGE_EMPTY \<and>
           raw_read_page small_geometry 0 p d' = Inr (False, d')) \<and>
      empty blk' = pages_per_block small_geometry \<and> dirty blk' = 0 \<and>
      count_pages small_geometry blk' PAGE_EMPTY = pages_per_block small_geometry \<and>
      elapsed_time d' = elapsed_time small_disk_2 + erase_block_time small_geometry \<and>
      block_erase_executed d' = block_erase_executed small_disk_2 + 1)"
proof -
  have r: "reachable 2 InPlace small_geometry small_disk_2" by (rule reachable_small_disk_2)
  have h: "(2::nat) \<le> 2" "0 \<le> pages_per_block small_geometry" "(0::int) \<le> 0"
    "0 < total_blocks small_geometry"
    by (simp_all add: small_geometry_def)
  from raw_erase_block_resets [OF r h] r show ?thesis by simp
qed

subsection \<open>The naive policy\<close>

text \<open>
  Claim C4. On a disk whose counters are consistent, for coordinates in range whose block
  has \<^verbatim>\<open>'empty' = 0\<close> and whose page is in use, the naive policy behaves as follows. If \<open>b\<close>
  is the first block other than the target, in ascending order, with a positive \<^verbatim>\<open>'empty'\<close>
  counter, and \<open>p\<close> its first empty page, the policy returns \<open>True\<close> and the disk differs
  from the old one in this only: the target page is dirty and the \<^verbatim>\<open>'dirty'\<close> counter of
  its block is one more, page \<open>p\<close> of \<open>b\<close> is in use and the \<^verbatim>\<open>'empty'\<close> counter of \<open>b\<close> is one
  less, the elapsed time has grown by \<^verbatim>\<open>write_page_time\<close> and \<^verbatim>\<open>_page_write_executed\<close> by
  one. If every other block has \<^verbatim>\<open>'empty' = 0\<close> it returns \<open>False\<close> on the unchanged disk,
  and it returns \<open>False\<close> in that case only.
\<close>

theorem naive_policy_relocates:
  assumes "disk_inv g d"
    and "0 \<le> block" and "block < total_blocks g" and "0 \<le> page" and "page < pages_per_block g"
    and "ftl d block = Some blk" and "empty blk = 0" and "pages blk page = Some PAGE_IN_USE"
  shows
    "(\<forall>b blkb.
        0 \<le> b \<and> b < total_blocks g \<and> b \<noteq> block \<and> ftl d b = Some blkb \<and> 0 < empty blkb \<and>
        (\<forall>b'. 0 \<le> b' \<and> b' < b \<and> b' \<noteq> block \<longrightarrow>
              (\<exists>blk'. ftl d b' = Some blk' \<and> empty blk' = 0)) \<longrightarrow>
        (\<exists>p. 0 \<le> p \<and> p < pages_per_block g \<and> pages blkb p = Some PAGE_EMPTY \<and>
             (\<forall>q. 0 \<le> q \<and> q < p \<longrightarrow> pages blkb q \<noteq> Some PAGE_EMPTY) \<and>
             full_block_write_policy n Naive g block page d =
               Inr (True,
                 (upd_block
                    (upd_block d block
                       (blk\<lparr>pages := (pages blk)(page \<mapsto> PAGE_DIRTY), dirty := dirty blk + 1\<rparr>))
                    b (blkb\<lparr>pages := (pages blkb)(p \<mapsto> PAGE_IN_USE), empty := empty blkb - 1\<rparr>))
                   \<lparr>elapsed_time := elapsed_time d + write_page_time g,
                    page_write_executed := page_write_executed d + 1\<rparr>))) \<and>
     ((\<forall>b. 0 \<le> b \<and> b < total_blocks g \<and> b \<noteq> block \<longrightarrow>
           (\<exists>blkb. ftl d b = Some blkb \<and> empty blkb = 0)) \<longrightarrow>
        full_block_write_policy n Naive g block page d = Inr (False, d)) \<and>
     ((\<exists>d'. full_block_write_policy n Naive g block page d = Inr (False, d')) \<longleftrightarrow>
      (\<forall>b. 0 \<le> b \<and> b < total_blocks g \<and> b \<noteq> block \<longrightarrow>
           (\<exists>blkb. ftl d b = Some blkb \<and> empty blkb = 0)))"
proof -
  have pol: "full_block_write_policy n Naive g block page d
             = naive_full_block_write_policy g block page d"
    by (simp add: full_block_write_policy_def policy_with_def)
  have first: "\<exists>p. 0 \<le> p \<and> p < pages_per_block g \<and> pages blkb p = Some PAGE_EMPTY \<and>
             (\<forall>q. 0 \<le> q \<and> q < p \<longrightarrow> pages blkb q \<noteq> Some PAGE_EMPTY) \<and>
             full_block_write_policy n Naive g block page d =
               Inr (True,
                 (upd_block
                    (upd_block d block
                       (blk\<lparr>pages := (pages blk)(page \<mapsto> PAGE_DIRTY), dirty := dirty blk + 1\<rparr>))
                    b (blkb\<lparr>pages := (pages blkb)(p \<mapsto> PAGE_IN_USE), empty := empty blkb - 1\<rparr>))
                   \<lparr>elapsed_time := elapsed_time d + write_page_time g,
                    page_write_executed := page_write_executed d + 1\<rparr>)"
    if b: "0 \<le> b" "b < total_blocks g" "b \<noteq> block" "ftl d b = Some blkb" "0 < empty blkb"
      and before: "\<forall>b'. 0 \<le> b' \<and> b' < b \<and> b' \<noteq> block \<longrightarrow>
              (\<exists>blk'. ftl d b' = Some blk' \<and> empty blk' = 0)"
    for b blkb
  proof -
    from disk_inv_block [OF assms(1) b(1,2)] b(4) have binv: "block_inv g blkb" by auto
    from get_empty_page_inv [OF b(1,2,4) binv b(5)] obtain p
      where p: "get_empty_page g b d = Inr p" "0 \<le> p" "p < pages_per_block g"
        "pages blkb p = Some PAGE_EMPTY"
        "\<forall>q. 0 \<le> q \<and> q < p \<longrightarrow> pages blkb q \<noteq> Some PAGE_EMPTY" by blast
    have "naive_full_block_write_policy g block page d =
               Inr (True,
                 (upd_block
                    (upd_block d block
                       (blk\<lparr>pages := (pages blk)(page \<mapsto> PAGE_DIRTY), dirty := dirty blk + 1\<rparr>))
                    b (blkb\<lparr>pages := (pages blkb)(p \<mapsto> PAGE_IN_USE), empty := empty blkb - 1\<rparr>))
                   \<lparr>elapsed_time := elapsed_time d + write_page_time g,
                    page_write_executed := page_write_executed d + 1\<rparr>)"
      using assms(2-5) b(1-5) p(1) assms(6)
    proof (rule naive_policy_hit)
      show "\<exists>blk'. ftl d b' = Some blk' \<and> empty blk' \<le> 0"
        if "0 \<le> b'" "b' < b" "b' \<noteq> block" for b'
        using before that by auto
    qed
    with p(2-5) show ?thesis unfolding pol by blast
  qed
  have fail: "full_block_write_policy n Naive g block page d = Inr (False, d)"
    if all: "\<forall>b. 0 \<le> b \<and> b < total_blocks g \<and> b \<noteq> block \<longrightarrow>
           (\<exists>blkb. ftl d b = Some blkb \<and> empty blkb = 0)"
  proof -
    have "naive_full_block_write_policy g block page d = Inr (False, d)"
      using assms(2-5)
    proof (rule naive_policy_fail)
      show "\<exists>blk. ftl d b = Some blk \<and> empty blk \<le> 0"
        if "0 \<le> b" "b < total_blocks g" "b \<noteq> block" for b
        using all that by auto
    qed
    then show ?thesis unfolding pol .
  qed
  have only: "\<forall>b. 0 \<le> b \<and> b < total_blocks g \<and> b \<noteq> block \<longrightarrow>
           (\<exists>blkb. ftl d b = Some blkb \<and> empty blkb = 0)"
    if "full_block_write_policy n Naive g block page d = Inr (False, d')" for d'
    using assms(1-6)
  proof (cases rule: naive_policy_cases)
    case fail
    then show ?thesis by simp
  next
    case (hit b blkb p)
    with that show ?thesis unfolding pol by simp
  qed
  from first fail only show ?thesis by blast
qed

text \<open>The witness: the small disk after two writes, where the policy relocates page (0, 0)
  into block 1, and the full disk of two one-page blocks, where it fails.\<close>

theorem naive_policy_relocates_witness:
  "disk_inv small_geometry small_disk_2 \<and>
   disk_inv one_page_geometry one_page_disk_full \<and>
   (\<exists>p. 0 \<le> p \<and> p < pages_per_block small_geometry \<and>
        pages \<lparr>pages = [0 \<mapsto> PAGE_EMPTY, 1 \<mapsto> PAGE_EMPTY], empty = 2, dirty = 0\<rparr> p
          = Some PAGE_EMPTY \<and>
        (\<forall>q. 0 \<le> q \<and> q < p \<longrightarrow>
           pages \<lparr>pages = [0 \<mapsto> PAGE_EMPTY, 1 \<mapsto> PAGE_EMPTY], empty = 2, dirty = 0\<rparr> q
             \<noteq> Some PAGE_EMPTY) \<and>
        full_block_write_policy 1 Naive small_geometry 0 0 small_disk_2 =
          Inr (True,
            (upd_block
               (upd_block small_disk_2 0
                  (\<lparr>pages = [0 \<mapsto> PAGE_IN_USE, 1 \<mapsto> PAGE_IN_USE], empty = 0, dirty = 0\<rparr>
                     \<lparr>pages := [0 \<mapsto> PAGE_IN_USE, 1 \<mapsto> PAGE_IN_USE](0 \<mapsto> PAGE_DIRTY),
                      dirty := 0 + 1\<rparr>))
               1 (\<lparr>pages = [0 \<mapsto> PAGE_EMPTY, 1 \<mapsto> PAGE_EMPTY], empty = 2, dirty = 0\<rparr>
                     \<lparr>pages := [0 \<mapsto> PAGE_EMPTY, 1 \<mapsto> PAGE_EMPTY](p \<mapsto> PAGE_IN_USE),
                      empty := 2 - 1\<rparr>))
              \<lparr>elapsed_time := elapsed_time small_disk_2 + write_page_time small_geometry,
               page_write_executed := page_write_executed small_disk_2 + 1\<rparr>)) \<and>
   full_block_write_policy 1 Naive one_page_geometry 1 0 one_page_disk_full
     = Inr (False, one_page_disk_full)"
proof -
  let ?blk0 = "\<lparr>pages = [0 \<mapsto> PAGE_IN_USE, 1 \<mapsto> PAGE_IN_USE], empty = 0, dirty = 0\<rparr>"
  let ?blk1 = "\<lparr>pages = [0 \<mapsto> PAGE_EMPTY, 1 \<mapsto> PAGE_EMPTY], empty = 2, dirty = 0\<rparr>"
  have h: "(0::int) \<le> 0" "0 < total_blocks small_geometry" "(0::int) \<le> 0"
    "0 < pages_per_block small_geometry" "ftl small_disk_2 0 = Some ?blk0"
    "empty ?blk0 = 0" "pages ?blk0 0 = Some PAGE_IN_USE"
    by (simp_all add: small_geometry_def small_disk_2_def)
  note t = naive_policy_relocates [OF disk_inv_small_disk_2 h, of 1]
  have prem: "0 \<le> (1::int) \<and> 1 < total_blocks small_geometry \<and> (1::int) \<noteq> 0 \<and>
        ftl small_disk_2 1 = Some ?blk1 \<and> 0 < empty ?blk1 \<and>
        (\<forall>b'. 0 \<le> b' \<and> b' < 1 \<and> b' \<noteq> 0 \<longrightarrow>
              (\<exists>blk'. ftl small_disk_2 b' = Some blk' \<and> empty blk' = 0))"
    by (simp add: small_geometry_def small_disk_2_def)
  from t prem have "\<exists>p. 0 \<le> p \<and> p < pages_per_block small_geometry \<and>
             pages ?blk1 p = Some PAGE_EMPTY \<and>
             (\<forall>q. 0 \<le> q \<and> q < p \<longrightarrow> pages ?blk1 q \<noteq> Some PAGE_EMPTY) \<and>
             full_block_write_policy 1 Naive small_geometry 0 0 small_disk_2 =
               Inr (True,
                 (upd_block
                    (upd_block small_disk_2 0
                       (?blk0\<lparr>pages := (pages ?blk0)(0 \<mapsto> PAGE_DIRTY), dirty := dirty ?blk0 + 1\<rparr>))
                    1 (?blk1\<lparr>pages := (pages ?blk1)(p \<mapsto> PAGE_IN_USE), empty := empty ?blk1 - 1\<rparr>))
                   \<lparr>elapsed_time := elapsed_time small_disk_2 + write_page_time small_geometry,
                    page_write_executed := page_write_executed small_disk_2 + 1\<rparr>)"
    by blast
  then have 1: "\<exists>p. 0 \<le> p \<and> p < pages_per_block small_geometry \<and>
        pages ?blk1 p = Some PAGE_EMPTY \<and>
        (\<forall>q. 0 \<le> q \<and> q < p \<longrightarrow> pages ?blk1 q \<noteq> Some PAGE_EMPTY) \<and>
        full_block_write_policy 1 Naive small_geometry 0 0 small_disk_2 =
          Inr (True,
            (upd_block
               (upd_block small_disk_2 0
                  (?blk0\<lparr>pages := [0 \<mapsto> PAGE_IN_USE, 1 \<mapsto> PAGE_IN_USE](0 \<mapsto> PAGE_DIRTY),
                      dirty := 0 + 1\<rparr>))
               1 (?blk1\<lparr>pages := [0 \<mapsto> PAGE_EMPTY, 1 \<mapsto> PAGE_EMPTY](p \<mapsto> PAGE_IN_USE),
                      empty := 2 - 1\<rparr>))
              \<lparr>elapsed_time := elapsed_time small_disk_2 + write_page_time small_geometry,
               page_write_executed := page_write_executed small_disk_2 + 1\<rparr>)"
    by (simp only: block.simps)
  let ?b1 = "\<lparr>pages = [0 \<mapsto> PAGE_IN_USE], empty = 0, dirty = 0\<rparr>"
  have h2: "(0::int) \<le> 1" "1 < total_blocks one_page_geometry" "(0::int) \<le> 0"
    "0 < pages_per_block one_page_geometry" "ftl one_page_disk_full 1 = Some ?b1"
    "empty ?b1 = 0" "pages ?b1 0 = Some PAGE_IN_USE"
    by (simp_all add: one_page_geometry_def one_page_disk_full_def)
  note t2 = naive_policy_relocates [OF disk_inv_one_page_disk_full h2, of 1]
  have all: "\<forall>b. 0 \<le> b \<and> b < total_blocks one_page_geometry \<and> b \<noteq> 1 \<longrightarrow>
           (\<exists>blkb. ftl one_page_disk_full b = Some blkb \<and> empty blkb = 0)"
  proof (intro allI impI)
    fix b :: int assume "0 \<le> b \<and> b < total_blocks one_page_geometry \<and> b \<noteq> 1"
    then have "b = 0" by (simp add: one_page_geometry_def)
    then show "\<exists>blkb. ftl one_page_disk_full b = Some blkb \<and> empty blkb = 0"
      by (simp add: one_page_disk_full_def)
  qed
  with t2 have 2: "full_block_write_policy 1 Naive one_page_geometry 1 0 one_page_disk_full
     = Inr (False, one_page_disk_full)" by blast
  from 1 2 disk_inv_small_disk_2 disk_inv_one_page_disk_full show ?thesis by blast
qed

subsection \<open>The in-place policy\<close>

text \<open>
  Claim C3, as amended. On every disk reachable with the in-place policy and for
  coordinates in range whose block has \<^verbatim>\<open>'empty' = 0\<close> and whose page is in use, the in-place
  \<^verbatim>\<open>full_block_write_policy\<close> returns \<open>True\<close>. Afterwards the pages of the block that were in
  use are in use and its other pages are empty: the \<^verbatim>\<open>'empty'\<close> counter of the block and the
  number of its empty pages are the \<^verbatim>\<open>'dirty'\<close> counter it had before the call. The block
  has an empty page afterwards exactly when it had a dirty page before.
\<close>

theorem in_place_policy_succeeds:
  assumes "reachable n InPlace g d" and "2 \<le> n" and "0 \<le> pages_per_block g"
    and "0 \<le> block" and "block < total_blocks g" and "0 \<le> page" and "page < pages_per_block g"
    and "ftl d block = Some blk" and "empty blk = 0" and "pages blk page = Some PAGE_IN_USE"
  shows "\<exists>d' blk'.
           full_block_write_policy n InPlace g block page d = Inr (True, d') \<and>
           ftl d' block = Some blk' \<and>
           empty blk' = dirty blk \<and> count_pages g blk' PAGE_EMPTY = dirty blk \<and>
           (\<forall>q. 0 \<le> q \<and> q < pages_per_block g \<longrightarrow>
                pages blk' q = Some (if pages blk q = Some PAGE_IN_USE
                                     then PAGE_IN_USE else PAGE_EMPTY))"
proof -
  from assms(2) obtain m where m: "n = Suc (Suc m)"
    by (metis Suc_le_D numeral_2_eq_2 Suc_le_mono)
  from reachable_inv [OF assms(1-3)] have inv: "disk_inv g d" by simp
  from disk_inv_block [OF inv assms(4,5)] assms(8) have binv: "block_inv g blk" by auto
  let ?fbwp = "policy_with InPlace (raw_write_page (Suc m) InPlace)"
  let ?blk' = "in_place_block g blk page"
  let ?d' = "(upd_block d block ?blk')
            \<lparr>elapsed_time := elapsed_time d + in_place_reads g blk page * read_page_time g
               + erase_block_time g + in_place_writes g blk page * write_page_time g,
             page_write_executed := page_write_executed d + in_place_writes g blk page,
             page_read_executed := page_read_executed d + in_place_reads g blk page,
             block_erase_executed := block_erase_executed d + 1\<rparr>"
  have "in_place_full_block_write_policy (raw_write_page_body ?fbwp) g block page d
        = Inr (True, ?d')"
    using assms(4-8) block_inv_present_list [OF binv] by (rule in_place_policy_run)
  then have run: "full_block_write_policy n InPlace g block page d = Inr (True, ?d')"
    unfolding m by (simp add: full_block_write_policy_def policy_with_def)
  have f: "ftl ?d' block = Some ?blk'" by simp
  from count_pages_total [OF block_inv_present_list [OF binv] assms(3)] binv assms(9)
  have "dirty blk = pages_per_block g - count_pages g blk PAGE_IN_USE"
    by (simp add: block_inv_def)
  then have e: "empty ?blk' = dirty blk"
    by (simp add: empty_in_place_block [OF assms(6,7)] in_place_writes_in_use [OF assms(10)])
  from block_inv_in_place_block [OF assms(3,6,7), of blk] e
  have c: "count_pages g ?blk' PAGE_EMPTY = dirty blk" by (simp add: block_inv_def)
  have pg: "pages ?blk' q = Some (if pages blk q = Some PAGE_IN_USE
                                     then PAGE_IN_USE else PAGE_EMPTY)"
    if "0 \<le> q \<and> q < pages_per_block g" for q
    using that assms(10) by (auto simp: pages_in_place_block [OF assms(6,7)])
  from run f e c pg show ?thesis
    by (intro exI [of _ ?d'] exI [of _ ?blk']) simp
qed

text \<open>The witness: page (0, 1) of the small disk after two writes.\<close>

theorem in_place_policy_succeeds_witness:
  "reachable 2 InPlace small_geometry small_disk_2 \<and>
   (\<exists>d' blk'.
      full_block_write_policy 2 InPlace small_geometry 0 1 small_disk_2 = Inr (True, d') \<and>
      ftl d' 0 = Some blk' \<and> empty blk' = 0 \<and> count_pages small_geometry blk' PAGE_EMPTY = 0 \<and>
      (\<forall>q. 0 \<le> q \<and> q < pages_per_block small_geometry \<longrightarrow>
           pages blk' q
             = Some (if [0 \<mapsto> PAGE_IN_USE, 1 \<mapsto> PAGE_IN_USE] q = Some PAGE_IN_USE
                     then PAGE_IN_USE else PAGE_EMPTY)))"
proof -
  let ?blk0 = "\<lparr>pages = [0 \<mapsto> PAGE_IN_USE, 1 \<mapsto> PAGE_IN_USE], empty = 0, dirty = 0\<rparr>"
  have r: "reachable 2 InPlace small_geometry small_disk_2" by (rule reachable_small_disk_2)
  have h: "(2::nat) \<le> 2" "0 \<le> pages_per_block small_geometry" "(0::int) \<le> 0"
    "0 < total_blocks small_geometry" "(0::int) \<le> 1" "1 < pages_per_block small_geometry"
    "ftl small_disk_2 0 = Some ?blk0" "empty ?blk0 = 0" "pages ?blk0 1 = Some PAGE_IN_USE"
    by (simp_all add: small_geometry_def small_disk_2_def)
  from in_place_policy_succeeds [OF r h] r show ?thesis by simp
qed

text \<open>
  Claim C3 as stated promises an empty page in the block afterwards. On the small disk
  after two writes, block 0 is full of pages in use; the in-place policy on page (0, 0)
  returns \<open>True\<close> and writes both pages back, and no page of block 0 is empty.
\<close>

theorem in_place_policy_may_leave_block_full:
  "reachable 2 InPlace small_geometry small_disk_2 \<and>
   get_page small_disk_2 0 0 = Inr PAGE_IN_USE \<and>
   (case ftl small_disk_2 0 of None \<Rightarrow> False | Some blk \<Rightarrow> empty blk = 0) \<and>
   (case full_block_write_policy 2 InPlace small_geometry 0 0 small_disk_2 of
      Inl e \<Rightarrow> False
    | Inr (res, d') \<Rightarrow>
        res \<and> get_page d' 0 0 = Inr PAGE_IN_USE \<and> get_page d' 0 1 = Inr PAGE_IN_USE \<and>
        (case ftl d' 0 of
           None \<Rightarrow> False
         | Some blk' \<Rightarrow> empty blk' = 0 \<and> count_pages small_geometry blk' PAGE_EMPTY = 0))"
proof -
  have "full_block_write_policy 2 InPlace small_geometry 0 0 small_disk_2 =
     Inr (True,
       \<lparr>elapsed_time = 2525, host_page_write_request = 0, page_write_executed = 4,
        page_write_failed = 0, host_page_read_request = 0, page_read_executed = 1,
        block_erase_executed = 1,
        ftl = [0 \<mapsto> \<lparr>pages = [0 \<mapsto> PAGE_IN_USE, 1 \<mapsto> PAGE_IN_USE], empty = 0, dirty = 0\<rparr>,
               1 \<mapsto> \<lparr>pages = [0 \<mapsto> PAGE_EMPTY, 1 \<mapsto> PAGE_EMPTY], empty = 2, dirty = 0\<rparr>]\<rparr>)"
    by (simp add: run_defs small_geometry_def small_disk_2_def)
  then show ?thesis
    using reachable_small_disk_2 [of InPlace]
    by (simp add: small_disk_2_def small_geometry_def get_page_def get_block_def count_pages_def)
qed

subsection \<open>Where the data goes\<close>

text \<open>
  Claim C10. On a disk whose counters are consistent, for coordinates in range whose page
  is in use: after the in-place policy the target page is in use (the data stays at the
  same coordinate); after \<^verbatim>\<open>raw_write_page\<close> on a block with room the target page is dirty
  and another page of the block, empty before, is in use; after a successful naive policy
  the target page is dirty and a page of another block, empty before, is in use; and the
  naive policy does succeed, with that outcome, whenever another block has an empty page.
\<close>

theorem relocation_target_coordinate:
  assumes "disk_inv g d" and "0 \<le> pages_per_block g"
    and "0 \<le> block" and "block < total_blocks g" and "0 \<le> page" and "page < pages_per_block g"
    and "ftl d block = Some blk" and "pages blk page = Some PAGE_IN_USE"
  shows
    "(\<exists>d' blk'.
        full_block_write_policy (Suc n) InPlace g block page d = Inr (True, d') \<and>
        ftl d' block = Some blk' \<and> pages blk' page = Some PAGE_IN_USE) \<and>
     (0 < empty blk \<longrightarrow>
        (\<exists>d' blk' q.
           raw_write_page (Suc n) pol g block page d = Inr (True, d') \<and>
           ftl d' block = Some blk' \<and> pages blk' page = Some PAGE_DIRTY \<and>
           q \<noteq> page \<and> 0 \<le> q \<and> q < pages_per_block g \<and>
           pages blk q = Some PAGE_EMPTY \<and> pages blk' q = Some PAGE_IN_USE)) \<and>
     (\<forall>d'. full_block_write_policy n Naive g block page d = Inr (True, d') \<longrightarrow>
        (\<exists>blk' b blkb blkb' q.
           ftl d' block = Some blk' \<and> pages blk' page = Some PAGE_DIRTY \<and>
           0 \<le> b \<and> b < total_blocks g \<and> b \<noteq> block \<and> 0 \<le> q \<and> q < pages_per_block g \<and>
           ftl d b = Some blkb \<and> pages blkb q = Some PAGE_EMPTY \<and>
           ftl d' b = Some blkb' \<and> pages blkb' q = Some PAGE_IN_USE)) \<and>
     ((\<exists>b blkb. 0 \<le> b \<and> b < total_blocks g \<and> b \<noteq> block \<and>
          ftl d b = Some blkb \<and> 0 < empty blkb) \<longrightarrow>
        (\<exists>d' blk' b blkb blkb' q.
           full_block_write_policy n Naive g block page d = Inr (True, d') \<and>
           ftl d' block = Some blk' \<and> pages blk' page = Some PAGE_DIRTY \<and>
           0 \<le> b \<and> b < total_blocks g \<and> b \<noteq> block \<and> 0 \<le> q \<and> q < pages_per_block g \<and>
           ftl d b = Some blkb \<and> pages blkb q = Some PAGE_EMPTY \<and>
           ftl d' b = Some blkb' \<and> pages blkb' q = Some PAGE_IN_USE))"
proof -
  from disk_inv_block [OF assms(1,3,4)] assms(7) have binv: "block_inv g blk" by auto
  have a: "\<exists>d' blk'.
        full_block_write_policy (Suc n) InPlace g block page d = Inr (True, d') \<and>
        ftl d' block = Some blk' \<and> pages blk' page = Some PAGE_IN_USE"
  proof -
    let ?fbwp = "policy_with InPlace (raw_write_page n InPlace)"
    let ?blk' = "in_place_block g blk page"
    let ?d' = "(upd_block d block ?blk')
            \<lparr>elapsed_time := elapsed_time d + in_place_reads g blk page * read_page_time g
               + erase_block_time g + in_place_writes g blk page * write_page_time g,
             page_write_executed := page_write_executed d + in_place_writes g blk page,
             page_read_executed := page_read_executed d + in_place_reads g blk page,
             block_erase_executed := block_erase_executed d + 1\<rparr>"
    have "in_place_full_block_write_policy (raw_write_page_body ?fbwp) g block page d
          = Inr (True, ?d')"
      using assms(3-7) block_inv_present_list [OF binv] by (rule in_place_policy_run)
    then have "full_block_write_policy (Suc n) InPlace g block page d = Inr (True, ?d')"
      by (simp add: full_block_write_policy_def policy_with_def)
    moreover have "ftl ?d' block = Some ?blk'" by simp
    moreover have "pages ?blk' page = Some PAGE_IN_USE"
      using assms(5,6) by (simp add: pages_in_place_block)
    ultimately show ?thesis by blast
  qed
  have b: "\<exists>d' blk' q.
           raw_write_page (Suc n) pol g block page d = Inr (True, d') \<and>
           ftl d' block = Some blk' \<and> pages blk' page = Some PAGE_DIRTY \<and>
           q \<noteq> page \<and> 0 \<le> q \<and> q < pages_per_block g \<and>
           pages blk q = Some PAGE_EMPTY \<and> pages blk' q = Some PAGE_IN_USE"
    if pos: "0 < empty blk"
  proof -
    from get_empty_page_inv [OF assms(3,4,7) binv pos] obtain q
      where q: "get_empty_page g block d = Inr q" "0 \<le> q" "q < pages_per_block g"
        "pages blk q = Some PAGE_EMPTY" by blast
    from q(4) assms(8) have ne: "q \<noteq> page" by auto
    let ?blk' = "blk\<lparr>pages := (pages blk)(page \<mapsto> PAGE_DIRTY, q \<mapsto> PAGE_IN_USE),
                      empty := empty blk - 1, dirty := dirty blk + 1\<rparr>"
    let ?d' = "(upd_block d block ?blk')
                  \<lparr>elapsed_time := elapsed_time d + write_page_time g,
                   page_write_executed := page_write_executed d + 1\<rparr>"
    have "raw_write_page_body (policy_with pol (raw_write_page n pol)) g block page d
          = Inr (True, ?d')"
      using assms(3-8) pos q(1) by (rule raw_write_page_room)
    then have "raw_write_page (Suc n) pol g block page d = Inr (True, ?d')" by simp
    moreover have "ftl ?d' block = Some ?blk'" by simp
    moreover have "pages ?blk' page = Some PAGE_DIRTY" "pages ?blk' q = Some PAGE_IN_USE"
      using ne by simp_all
    ultimately show ?thesis using ne q(2,3,4) by blast
  qed
  have c: "\<exists>blk' b blkb blkb' q.
           ftl d' block = Some blk' \<and> pages blk' page = Some PAGE_DIRTY \<and>
           0 \<le> b \<and> b < total_blocks g \<and> b \<noteq> block \<and> 0 \<le> q \<and> q < pages_per_block g \<and>
           ftl d b = Some blkb \<and> pages blkb q = Some PAGE_EMPTY \<and>
           ftl d' b = Some blkb' \<and> pages blkb' q = Some PAGE_IN_USE"
    if run: "full_block_write_policy n Naive g block page d = Inr (True, d')" for d'
  proof -
    have pol: "full_block_write_policy n Naive g block page d
               = naive_full_block_write_policy g block page d"
      by (simp add: full_block_write_policy_def policy_with_def)
    from assms(1,3-7) show ?thesis
    proof (cases rule: naive_policy_cases)
      case fail
      with run show ?thesis unfolding pol by simp
    next
      case (hit b blkb p)
      let ?blk' = "blk\<lparr>pages := (pages blk)(page \<mapsto> PAGE_DIRTY), dirty := dirty blk + 1\<rparr>"
      let ?blkb' = "blkb\<lparr>pages := (pages blkb)(p \<mapsto> PAGE_IN_USE), empty := empty blkb - 1\<rparr>"
      from hit(12) run have d': "d' = (upd_block (upd_block d block ?blk') b ?blkb')
            \<lparr>elapsed_time := elapsed_time d + write_page_time g,
             page_write_executed := page_write_executed d + 1\<rparr>"
        unfolding pol by simp
      have "ftl d' block = Some ?blk'" "ftl d' b = Some ?blkb'"
        using hit(3) by (simp_all add: d')
      moreover have "pages ?blk' page = Some PAGE_DIRTY" "pages ?blkb' p = Some PAGE_IN_USE"
        by simp_all
      ultimately show ?thesis using hit(1-4,8-10) by blast
    qed
  qed
  have e: "\<exists>d' blk' b blkb blkb' q.
           full_block_write_policy n Naive g block page d = Inr (True, d') \<and>
           ftl d' block = Some blk' \<and> pages blk' page = Some PAGE_DIRTY \<and>
           0 \<le> b \<and> b < total_blocks g \<and> b \<noteq> block \<and> 0 \<le> q \<and> q < pages_per_block g \<and>
           ftl d b = Some blkb \<and> pages blkb q = Some PAGE_EMPTY \<and>
           ftl d' b = Some blkb' \<and> pages blkb' q = Some PAGE_IN_USE"
    if free: "\<exists>b blkb. 0 \<le> b \<and> b < total_blocks g \<and> b \<noteq> block \<and>
          ftl d b = Some blkb \<and> 0 < empty blkb"
  proof -
    have pol: "full_block_write_policy n Naive g block page d
               = naive_full_block_write_policy g block page d"
      by (simp add: full_block_write_policy_def policy_with_def)
    from assms(1,3-7) show ?thesis
    proof (cases rule: naive_policy_cases)
      case fail
      from free obtain b0 blk0 where b0: "0 \<le> b0" "b0 < total_blocks g" "b0 \<noteq> block"
        "ftl d b0 = Some blk0" "0 < empty blk0" by blast
      from fail(1) b0(1-3) obtain blk1 where "ftl d b0 = Some blk1" "empty blk1 = 0" by blast
      with b0(4,5) show ?thesis by simp
    next
      case (hit b blkb p)
      let ?blk' = "blk\<lparr>pages := (pages blk)(page \<mapsto> PAGE_DIRTY), dirty := dirty blk + 1\<rparr>"
      let ?blkb' = "blkb\<lparr>pages := (pages blkb)(p \<mapsto> PAGE_IN_USE), empty := empty blkb - 1\<rparr>"
      let ?d' = "(upd_block (upd_block d block ?blk') b ?blkb')
            \<lparr>elapsed_time := elapsed_time d + write_page_time g,
             page_write_executed := page_write_executed d + 1\<rparr>"
      from hit(12) have "full_block_write_policy n Naive g block page d = Inr (True, ?d')"
        unfolding pol .
      moreover have "ftl ?d' block = Some ?blk'" "ftl ?d' b = Some ?blkb'"
        using hit(3) by simp_all
      moreover have "pages ?blk' page = Some PAGE_DIRTY" "pages ?blkb' p = Some PAGE_IN_USE"
        by simp_all
      ultimately show ?thesis using hit(1-4,8-10) by blast
    qed
  qed
  from a b c e show ?thesis by blast
qed

text \<open>The witness: page (0, 0) of the small disk after one write. Block 1 is empty, and
  the naive policy moves the data to its page 0.\<close>

theorem relocation_target_coordinate_witness:
  "disk_inv small_geometry small_disk_1 \<and>
   (\<exists>d' blk'.
        full_block_write_policy (Suc 1) InPlace small_geometry 0 0 small_disk_1 = Inr (True, d') \<and>
        ftl d' 0 = Some blk' \<and> pages blk' 0 = Some PAGE_IN_USE) \<and>
   (\<exists>d' blk' q.
        raw_write_page (Suc 1) Naive small_geometry 0 0 small_disk_1 = Inr (True, d') \<and>
        ftl d' 0 = Some blk' \<and> pages blk' 0 = Some PAGE_DIRTY \<and>
        q \<noteq> 0 \<and> 0 \<le> q \<and> q < pages_per_block small_geometry \<and>
        pages blk' q = Some PAGE_IN_USE) \<and>
   (\<exists>d' blk' b blkb blkb' q.
        full_block_write_policy 1 Naive small_geometry 0 0 small_disk_1 = Inr (True, d') \<and>
        ftl d' 0 = Some blk' \<and> pages blk' 0 = Some PAGE_DIRTY \<and>
        0 \<le> b \<and> b < total_blocks small_geometry \<and> b \<noteq> 0 \<and>
        0 \<le> q \<and> q < pages_per_block small_geometry \<and>
        ftl small_disk_1 b = Some blkb \<and> pages blkb q = Some PAGE_EMPTY \<and>
        ftl d' b = Some blkb' \<and> pages blkb' q = Some PAGE_IN_USE) \<and>
   full_block_write_policy 1 Naive small_geometry 0 0 small_disk_1 =
     Inr (True,
       \<lparr>elapsed_time = 500, host_page_write_request = 0, page_write_executed = 2,
        page_write_failed = 0, host_page_read_request = 0, page_read_executed = 0,
        block_erase_executed = 0,
        ftl = [0 \<mapsto> \<lparr>pages = [0 \<mapsto> PAGE_DIRTY, 1 \<mapsto> PAGE_EMPTY], empty = 1, dirty = 1\<rparr>,
               1 \<mapsto> \<lparr>pages = [0 \<mapsto> PAGE_IN_USE, 1 \<mapsto> PAGE_EMPTY], empty = 1, dirty = 0\<rparr>]\<rparr>) \<and>
   full_block_write_policy 2 InPlace small_geometry 0 0 small_disk_1 =
     Inr (True,
       \<lparr>elapsed_time = 2000, host_page_write_request = 0, page_write_executed = 2,
        page_write_failed = 0, host_page_read_request = 0, page_read_executed = 0,
        block_erase_executed = 1,
        ftl = [0 \<mapsto> \<lparr>pages = [0 \<mapsto> PAGE_IN_USE, 1 \<mapsto> PAGE_EMPTY], empty = 1, dirty = 0\<rparr>,
               1 \<mapsto> \<lparr>pages = [0 \<mapsto> PAGE_EMPTY, 1 \<mapsto> PAGE_EMPTY], empty = 2, dirty = 0\<rparr>]\<rparr>) \<and>
   raw_write_page 2 Naive small_geometry 0 0 small_disk_1 =
     Inr (True,
       \<lparr>elapsed_time = 500, host_page_write_request = 0, page_write_executed = 2,
        page_write_failed = 0, host_page_read_request = 0, page_read_executed = 0,
        block_erase_executed = 0,
        ftl = [0 \<mapsto> \<lparr>pages = [0 \<mapsto> PAGE_DIRTY, 1 \<mapsto> PAGE_IN_USE], empty = 0, dirty = 1\<rparr>,
               1 \<mapsto> \<lparr>pages = [0 \<mapsto> PAGE_EMPTY, 1 \<mapsto> PAGE_EMPTY], empty = 2, dirty = 0\<rparr>]\<rparr>)"
proof -
  let ?blk0 = "\<lparr>pages = [0 \<mapsto> PAGE_IN_USE, 1 \<mapsto> PAGE_EMPTY], empty = 1, dirty = 0\<rparr>"
  let ?blk1 = "\<lparr>pages = [0 \<mapsto> PAGE_EMPTY, 1 \<mapsto> PAGE_EMPTY], empty = 2, dirty = 0\<rparr>"
  have inv: "disk_inv small_geometry small_disk_1"
    by (simp add: disk_inv_def block_inv_def count_pages_def small_geometry_def small_disk_1_def)
  have h: "0 \<le> pages_per_block small_geometry" "(0::int) \<le> 0"
    "0 < total_blocks small_geometry" "(0::int) \<le> 0" "0 < pages_per_block small_geometry"
    "ftl small_disk_1 0 = Some ?blk0" "pages ?blk0 0 = Some PAGE_IN_USE"
    by (simp_all add: small_geometry_def small_disk_1_def)
  have pos: "0 < empty ?blk0" by simp
  have "(0::int) \<le> 1 \<and> 1 < total_blocks small_geometry \<and> (1::int) \<noteq> 0 \<and>
        ftl small_disk_1 1 = Some ?blk1 \<and> 0 < empty ?blk1"
    by (simp add: small_geometry_def small_disk_1_def)
  then have free: "\<exists>b blkb. 0 \<le> b \<and> b < total_blocks small_geometry \<and> b \<noteq> 0 \<and>
          ftl small_disk_1 b = Some blkb \<and> 0 < empty blkb"
    by blast
  have run: "full_block_write_policy 1 Naive small_geometry 0 0 small_disk_1 =
     Inr (True,
       \<lparr>elapsed_time = 500, host_page_write_request = 0, page_write_executed = 2,
        page_write_failed = 0, host_page_read_request = 0, page_read_executed = 0,
        block_erase_executed = 0,
        ftl = [0 \<mapsto> \<lparr>pages = [0 \<mapsto> PAGE_DIRTY, 1 \<mapsto> PAGE_EMPTY], empty = 1, dirty = 1\<rparr>,
               1 \<mapsto> \<lparr>pages = [0 \<mapsto> PAGE_IN_USE, 1 \<mapsto> PAGE_EMPTY], empty = 1, dirty = 0\<rparr>]\<rparr>)"
    by (simp add: run_defs small_geometry_def small_disk_1_def)
  have run2: "full_block_write_policy 2 InPlace small_geometry 0 0 small_disk_1 =
     Inr (True,
       \<lparr>elapsed_time = 2000, host_page_write_request = 0, page_write_executed = 2,
        page_write_failed = 0, host_page_read_request = 0, page_read_executed = 0,
        block_erase_executed = 1,
        ftl = [0 \<mapsto> \<lparr>pages = [0 \<mapsto> PAGE_IN_USE, 1 \<mapsto> PAGE_EMPTY], empty = 1, dirty = 0\<rparr>,
               1 \<mapsto> \<lparr>pages = [0 \<mapsto> PAGE_EMPTY, 1 \<mapsto> PAGE_EMPTY], empty = 2, dirty = 0\<rparr>]\<rparr>)"
    by (simp add: run_defs small_geometry_def small_disk_1_def)
  have run3: "raw_write_page 2 Naive small_geometry 0 0 small_disk_1 =
     Inr (True,
       \<lparr>elapsed_time = 500, host_page_write_request = 0, page_write_executed = 2,
        page_write_failed = 0, host_page_read_request = 0, page_read_executed = 0,
        block_erase_executed = 0,
        ftl = [0 \<mapsto> \<lparr>pages = [0 \<mapsto> PAGE_DIRTY, 1 \<mapsto> PAGE_IN_USE], empty = 0, dirty = 1\<rparr>,
               1 \<mapsto> \<lparr>pages = [0 \<mapsto> PAGE_EMPTY, 1 \<mapsto> PAGE_EMPTY], empty = 2, dirty = 0\<rparr>]\<rparr>)"
    by (simp add: run_defs small_geometry_def small_disk_1_def)
  from relocation_target_coordinate [OF inv h, where n = 1 and pol = Naive] pos free inv
    run run2 run3
  show ?thesis by blast
qed

subsection \<open>What a write returns\<close>

text \<open>
  Claim C6, as amended. \<^verbatim>\<open>raw_write_page\<close> and \<^verbatim>\<open>host_write_page\<close> return a truth value. On a
  reachable disk and for coordinates in range, when \<^verbatim>\<open>raw_write_page\<close> returns \<open>False\<close> then
  \<^verbatim>\<open>host_write_page\<close> returns \<open>False\<close> too, with the same disk, and one of two things happened:
  the page was dirty and the disk is unchanged, or the page was in use, the policy failed
  and the disk is unchanged but for \<^verbatim>\<open>_page_write_failed\<close>, which is one more. The value
  returned is \<open>False\<close> in both cases; \<^verbatim>\<open>_page_write_failed\<close> tells them apart.
\<close>

theorem write_returning_false:
  assumes "reachable n pol g d" and "2 \<le> n" and "0 \<le> pages_per_block g"
    and "0 \<le> block" and "block < total_blocks g" and "0 \<le> page" and "page < pages_per_block g"
    and "raw_write_page n pol g block page d = Inr (False, d')"
  shows "returned (raw_write_page n pol g block page d) = Inr False \<and>
         host_write_page n pol g block page d = Inr (False, d') \<and>
         returned (host_write_page n pol g block page d) = Inr False \<and>
         (get_page d block page = Inr PAGE_DIRTY \<and> d' = d \<or>
          get_page d block page = Inr PAGE_IN_USE \<and>
            d' = d\<lparr>page_write_failed := page_write_failed d + 1\<rparr>)"
proof -
  from assms(2) obtain m where m: "n = Suc (Suc m)"
    by (metis Suc_le_D numeral_2_eq_2 Suc_le_mono)
  from reachable_inv [OF assms(1-3)] have inv: "disk_inv g d" by simp
  from disk_inv_block [OF inv assms(4,5)] obtain blk
    where blk: "ftl d block = Some blk" "block_inv g blk" by auto
  from block_inv_present [OF blk(2) assms(6,7)] obtain s where s: "pages blk page = Some s" by auto
  have gp: "get_page d block page = Inr s" using blk(1) s by (rule get_page_Some)
  have ne: "s \<noteq> PAGE_EMPTY"
  proof
    assume "s = PAGE_EMPTY"
    with s have "pages blk page = Some PAGE_EMPTY" by simp
    from raw_write_page_empty [OF assms(4-7) blk(1) this,
        of "policy_with pol (raw_write_page (Suc m) pol)"] assms(8)
    show False unfolding m by simp
  qed
  from raw_write_page_step [OF inv assms(3-7), of m pol] assms(8)
  have d': "d' = (if get_page d block page = Inr PAGE_IN_USE
                  then d\<lparr>page_write_failed := page_write_failed d + 1\<rparr> else d)"
    unfolding m by auto
  have hw: "host_write_page n pol g block page d = Inr (False, d')"
    using host_write_page_unfold [OF assms(4-8)] by simp
  have "get_page d block page = Inr PAGE_DIRTY \<and> d' = d \<or>
        get_page d block page = Inr PAGE_IN_USE \<and>
          d' = d\<lparr>page_write_failed := page_write_failed d + 1\<rparr>"
    using ne gp d' by (cases s) simp_all
  with hw assms(8) show ?thesis by (simp add: returned_def)
qed

text \<open>The witness: the failed write to page (1, 0) of the full disk of two one-page
  blocks.\<close>

theorem write_returning_false_witness:
  "reachable 2 Naive one_page_geometry one_page_disk_full \<and>
   raw_write_page 2 Naive one_page_geometry 1 0 one_page_disk_full
     = Inr (False, one_page_disk_full\<lparr>page_write_failed := 1\<rparr>) \<and>
   returned (raw_write_page 2 Naive one_page_geometry 1 0 one_page_disk_full) = Inr False \<and>
   host_write_page 2 Naive one_page_geometry 1 0 one_page_disk_full
     = Inr (False, one_page_disk_full\<lparr>page_write_failed := 1\<rparr>) \<and>
   returned (host_write_page 2 Naive one_page_geometry 1 0 one_page_disk_full) = Inr False \<and>
   get_page one_page_disk_full 1 0 = Inr PAGE_IN_USE"
proof -
  have r: "reachable 2 Naive one_page_geometry one_page_disk_full"
    by (rule reachable_one_page_disk_full)
  have h: "(2::nat) \<le> 2" "0 \<le> pages_per_block one_page_geometry" "(0::int) \<le> 1"
    "1 < total_blocks one_page_geometry" "(0::int) \<le> 0" "0 < pages_per_block one_page_geometry"
    by (simp_all add: one_page_geometry_def)
  have w: "raw_write_page 2 Naive one_page_geometry 1 0 one_page_disk_full
     = Inr (False, one_page_disk_full\<lparr>page_write_failed := 1\<rparr>)"
    by (simp add: run_defs one_page_geometry_def one_page_disk_full_def)
  have g: "get_page one_page_disk_full 1 0 = Inr PAGE_IN_USE"
    by (simp add: run_defs one_page_disk_full_def)
  from write_returning_false [OF r h w] r w g show ?thesis by (simp add: returned_def)
qed

text \<open>
  Claim C6 as stated wants the two outcomes to return distinct values. On the full disk of
  two one-page blocks, page (0, 0) is dirty and page (1, 0) is in use in a full block for
  which the naive policy fails: a write to either returns \<open>False\<close>.
\<close>

theorem dirty_and_failed_write_return_the_same:
  "reachable 2 Naive one_page_geometry one_page_disk_full \<and>
   get_page one_page_disk_full 0 0 = Inr PAGE_DIRTY \<and>
   get_page one_page_disk_full 1 0 = Inr PAGE_IN_USE \<and>
   full_block_write_policy 1 Naive one_page_geometry 1 0 one_page_disk_full
     = Inr (False, one_page_disk_full) \<and>
   returned (raw_write_page 2 Naive one_page_geometry 0 0 one_page_disk_full) = Inr False \<and>
   returned (raw_write_page 2 Naive one_page_geometry 1 0 one_page_disk_full) = Inr False \<and>
   returned (host_write_page 2 Naive one_page_geometry 0 0 one_page_disk_full) = Inr False \<and>
   returned (host_write_page 2 Naive one_page_geometry 1 0 one_page_disk_full) = Inr False"
  using reachable_one_page_disk_full
  by (simp add: run_defs returned_def one_page_geometry_def one_page_disk_full_def)

subsection \<open>The ratios\<close>

text \<open>
  Claim C7, as amended. \<^verbatim>\<open>write_amplification\<close> raises exactly when
  \<^verbatim>\<open>_host_page_write_request\<close> is zero, and \<^verbatim>\<open>failure_rate\<close> exactly when
  \<^verbatim>\<open>_page_write_executed\<close> is zero: \<^verbatim>\<open>InvalidOperation\<close> when the numerator is zero too,
  \<^verbatim>\<open>DivisionByZero\<close> otherwise. Otherwise each returns its ratio rounded to \<open>prec\<close>
  significant digits, a tie going to the even digit: the result is a rounding of the ratio
  in the sense of \<open>rounded_at\<close>, and it is the only one. Hence it is within a relative
  error of \<open>5 / 10 ^ prec\<close> of the ratio, and it is the ratio itself when that is an integer
  of at most \<open>prec\<close> digits. The numerator of \<^verbatim>\<open>failure_rate\<close> is the product
  \<^verbatim>\<open>Decimal(_page_write_failed) * 100\<close>, itself rounded in the same way, which is exact
  below \<open>10 ^ prec\<close>.
\<close>

theorem ratio_statistics:
  assumes "1 \<le> prec"
  shows
    "(host_page_write_request d = 0 \<longrightarrow>
        write_amplification prec d =
          (if page_write_executed d = 0 then Inl InvalidOperation else Inl DivisionByZero)) \<and>
     (host_page_write_request d \<noteq> 0 \<longrightarrow>
        (\<exists>r. write_amplification prec d = Inr r \<and>
           (\<exists>e c. rounded_at prec
               (of_int (page_write_executed d) / of_int (host_page_write_request d)) e c r) \<and>
           (\<forall>e c r'. rounded_at prec
               (of_int (page_write_executed d) / of_int (host_page_write_request d)) e c r'
              \<longrightarrow> r' = r) \<and>
           \<bar>r - of_int (page_write_executed d) / of_int (host_page_write_request d)\<bar> * 10 ^ prec
             \<le> 5 * \<bar>of_int (page_write_executed d) / of_int (host_page_write_request d)\<bar> \<and>
           (host_page_write_request d dvd page_write_executed d \<and>
            \<bar>page_write_executed d div host_page_write_request d\<bar> < 10 ^ prec \<longrightarrow>
              r = of_int (page_write_executed d div host_page_write_request d)))) \<and>
     (page_write_executed d = 0 \<longrightarrow>
        failure_rate prec d =
          (if page_write_failed d = 0 then Inl InvalidOperation else Inl DivisionByZero)) \<and>
     (page_write_executed d \<noteq> 0 \<longrightarrow>
        (\<exists>m r. decimal_mul prec (page_write_failed d) 100 = m \<and>
           (\<exists>e c. rounded_at prec (of_int (page_write_failed d * 100)) e c (of_int m)) \<and>
           (\<forall>e c m'. rounded_at prec (of_int (page_write_failed d * 100)) e c m'
              \<longrightarrow> m' = of_int m) \<and>
           (\<bar>page_write_failed d * 100\<bar> < 10 ^ prec \<longrightarrow> m = page_write_failed d * 100) \<and>
           failure_rate prec d = Inr r \<and>
           (\<exists>e c. rounded_at prec (of_int m / of_int (page_write_executed d)) e c r) \<and>
           (\<forall>e c r'. rounded_at prec (of_int m / of_int (page_write_executed d)) e c r'
              \<longrightarrow> r' = r) \<and>
           \<bar>r - of_int m / of_int (page_write_executed d)\<bar> * 10 ^ prec
             \<le> 5 * \<bar>of_int m / of_int (page_write_executed d)\<bar> \<and>
           (page_write_executed d dvd m \<and> \<bar>m div page_write_executed d\<bar> < 10 ^ prec \<longrightarrow>
              r = of_int (m div page_write_executed d))))"
proof -
  have div: "\<exists>r. decimal_div prec a b = Inr r \<and>
           (\<exists>e c. rounded_at prec (of_int a / of_int b) e c r) \<and>
           (\<forall>e c r'. rounded_at prec (of_int a / of_int b) e c r' \<longrightarrow> r' = r) \<and>
           \<bar>r - of_int a / of_int b\<bar> * 10 ^ prec \<le> 5 * \<bar>of_int a / of_int b\<bar> \<and>
           (b dvd a \<and> \<bar>a div b\<bar> < 10 ^ prec \<longrightarrow> r = of_int (a div b))"
    if b: "b \<noteq> 0" for a b
  proof -
    let ?r = "round_quotient prec a b"
    have 1: "decimal_div prec a b = Inr ?r" using b by (simp add: decimal_div_def)
    note R = round_quotient_rounded [OF b, of prec a]
    then have 2: "\<exists>e c. rounded_at prec (of_int a / of_int b) e c ?r" by blast
    have 3: "\<forall>e c r'. rounded_at prec (of_int a / of_int b) e c r' \<longrightarrow> r' = ?r"
      using rounded_at_unique [OF _ R] by blast
    note 4 = round_quotient_error [OF b, of prec a]
    have 5: "b dvd a \<and> \<bar>a div b\<bar> < 10 ^ prec \<longrightarrow> ?r = of_int (a div b)"
      using round_quotient_exact [OF b, of a prec] by blast
    from 1 2 3 4 5 show ?thesis by blast
  qed
  have zero: "decimal_div prec a 0 = (if a = 0 then Inl InvalidOperation else Inl DivisionByZero)"
    for a by (simp add: decimal_div_def)
  let ?n = "page_write_failed d * 100"
  let ?m = "decimal_mul prec (page_write_failed d) 100"
  have m: "?m = round_int prec ?n" by (simp add: decimal_mul_def)
  from round_int_rounded [OF assms, of ?n] obtain c0
    where M: "rounded_at prec (of_int ?n) (int (digits (nat \<bar>?n\<bar>)) - 1) c0 (of_int ?m)"
    unfolding m by blast
  then have mul1: "\<exists>e c. rounded_at prec (of_int ?n) e c (of_int ?m)" by blast
  have mul2: "\<forall>e c m'. rounded_at prec (of_int ?n) e c m' \<longrightarrow> m' = of_int ?m"
    using rounded_at_unique [OF _ M] by blast
  have mul3: "\<bar>?n\<bar> < 10 ^ prec \<longrightarrow> ?m = ?n"
    using round_int_exact [OF assms, of ?n] unfolding m by blast
  have m0: "?m = 0 \<longleftrightarrow> page_write_failed d = 0"
    unfolding m round_int_eq_0_iff [OF assms] by simp
  have 1: "host_page_write_request d = 0 \<longrightarrow>
        write_amplification prec d =
          (if page_write_executed d = 0 then Inl InvalidOperation else Inl DivisionByZero)"
    using zero [of "page_write_executed d"] by (simp add: write_amplification_def)
  have 2: "host_page_write_request d \<noteq> 0 \<longrightarrow>
        (\<exists>r. write_amplification prec d = Inr r \<and>
           (\<exists>e c. rounded_at prec
               (of_int (page_write_executed d) / of_int (host_page_write_request d)) e c r) \<and>
           (\<forall>e c r'. rounded_at prec
               (of_int (page_write_executed d) / of_int (host_page_write_request d)) e c r'
              \<longrightarrow> r' = r) \<and>
           \<bar>r - of_int (page_write_executed d) / of_int (host_page_write_request d)\<bar> * 10 ^ prec
             \<le> 5 * \<bar>of_int (page_write_executed d) / of_int (host_page_write_request d)\<bar> \<and>
           (host_page_write_request d dvd page_write_executed d \<and>
            \<bar>page_write_executed d div host_page_write_request d\<bar> < 10 ^ prec \<longrightarrow>
              r = of_int (page_write_executed d div host_page_write_request d)))"
    using div [of "host_page_write_request d" "page_write_executed d"]
    by (simp only: write_amplification_def) blast
  have 3: "page_write_executed d = 0 \<longrightarrow>
        failure_rate prec d =
          (if page_write_failed d = 0 then Inl InvalidOperation else Inl DivisionByZero)"
    using zero [of ?m] m0 by (simp add: failure_rate_def)
  have 4: "page_write_executed d \<noteq> 0 \<longrightarrow>
        (\<exists>m r. decimal_mul prec (page_write_failed d) 100 = m \<and>
           (\<exists>e c. rounded_at prec (of_int (page_write_failed d * 100)) e c (of_int m)) \<and>
           (\<forall>e c m'. rounded_at prec (of_int (page_write_failed d * 100)) e c m'
              \<longrightarrow> m' = of_int m) \<and>
           (\<bar>page_write_failed d * 100\<bar> < 10 ^ prec \<longrightarrow> m = page_write_failed d * 100) \<and>
           failure_rate prec d = Inr r \<and>
           (\<exists>e c. rounded_at prec (of_int m / of_int (page_write_executed d)) e c r) \<and>
           (\<forall>e c r'. rounded_at prec (of_int m / of_int (page_write_executed d)) e c r'
              \<longrightarrow> r' = r) \<and>
           \<bar>r - of_int m / of_int (page_write_executed d)\<bar> * 10 ^ prec
             \<le> 5 * \<bar>of_int m / of_int (page_write_executed d)\<bar> \<and>
           (page_write_executed d dvd m \<and> \<bar>m div page_write_executed d\<bar> < 10 ^ prec \<longrightarrow>
              r = of_int (m div page_write_executed d)))"
  proof
    assume "page_write_executed d \<noteq> 0"
    from div [OF this, of ?m] obtain r where r: "decimal_div prec ?m (page_write_executed d) = Inr r"
      "\<exists>e c. rounded_at prec (of_int ?m / of_int (page_write_executed d)) e c r"
      "\<forall>e c r'. rounded_at prec (of_int ?m / of_int (page_write_executed d)) e c r' \<longrightarrow> r' = r"
      "\<bar>r - of_int ?m / of_int (page_write_executed d)\<bar> * 10 ^ prec
         \<le> 5 * \<bar>of_int ?m / of_int (page_write_executed d)\<bar>"
      "page_write_executed d dvd ?m \<and> \<bar>?m div page_write_executed d\<bar> < 10 ^ prec \<longrightarrow>
         r = of_int (?m div page_write_executed d)"
      by blast
    from r(1) have fr: "failure_rate prec d = Inr r" by (simp only: failure_rate_def)
    from mul1 mul2 mul3 fr r(2-5) show "\<exists>m r. decimal_mul prec (page_write_failed d) 100 = m \<and>
           (\<exists>e c. rounded_at prec (of_int (page_write_failed d * 100)) e c (of_int m)) \<and>
           (\<forall>e c m'. rounded_at prec (of_int (page_write_failed d * 100)) e c m'
              \<longrightarrow> m' = of_int m) \<and>
           (\<bar>page_write_failed d * 100\<bar> < 10 ^ prec \<longrightarrow> m = page_write_failed d * 100) \<and>
           failure_rate prec d = Inr r \<and>
           (\<exists>e c. rounded_at prec (of_int m / of_int (page_write_executed d)) e c r) \<and>
           (\<forall>e c r'. rounded_at prec (of_int m / of_int (page_write_executed d)) e c r'
              \<longrightarrow> r' = r) \<and>
           \<bar>r - of_int m / of_int (page_write_executed d)\<bar> * 10 ^ prec
             \<le> 5 * \<bar>of_int m / of_int (page_write_executed d)\<bar> \<and>
           (page_write_executed d dvd m \<and> \<bar>m div page_write_executed d\<bar> < 10 ^ prec \<longrightarrow>
              r = of_int (m div page_write_executed d))"
      by (intro exI [of _ ?m] exI [of _ r]) blast
  qed
  from 1 2 3 4 show ?thesis by (intro conjI)
qed

text \<open>The witness, with the precision of 12 digits. The small disk after three host writes
  with the in-place policy: 4 / 3 gives 1.33333333333 and no failure gives 0. The two disks
  whose ratios are halfway between two numbers of 12 digits: 4097 / 4096 = 1.000244140625
  gives 1.00024414062 and 100 / 262144 = 0.0003814697265625 gives 0.000381469726562, the
  even digit in both (rounding the half up would give 1.00024414063 and
  0.000381469726563). The small disk after one raw write (\<^verbatim>\<open>DivisionByZero\<close>) and the new
  disk (\<^verbatim>\<open>InvalidOperation\<close>). Each value is obtained from the theorem.\<close>

theorem ratio_statistics_witness:
  "reachable 2 InPlace small_geometry small_disk_3 \<and>
   write_amplification DECIMAL_PRECISION small_disk_3 = Inr (133333333333 / 100000000000) \<and>
   failure_rate DECIMAL_PRECISION small_disk_3 = Inr 0 \<and>
   reachable 2 Naive one_page_geometry amplification_tie_disk \<and>
   page_write_executed amplification_tie_disk = 4097 \<and>
   host_page_write_request amplification_tie_disk = 4096 \<and>
   write_amplification DECIMAL_PRECISION amplification_tie_disk
     = Inr (100024414062 / 100000000000) \<and>
   reachable 2 Naive one_page_geometry failure_tie_disk \<and>
   page_write_failed failure_tie_disk = 1 \<and>
   page_write_executed failure_tie_disk = 262144 \<and>
   failure_rate DECIMAL_PRECISION failure_tie_disk
     = Inr (381469726562 / 1000000000000000) \<and>
   write_amplification DECIMAL_PRECISION small_disk_1 = Inl DivisionByZero \<and>
   write_amplification DECIMAL_PRECISION (BaseNANDDisk_init small_geometry)
     = Inl InvalidOperation \<and>
   failure_rate DECIMAL_PRECISION (BaseNANDDisk_init small_geometry) = Inl InvalidOperation"
proof -
  have p: "1 \<le> DECIMAL_PRECISION" by (simp add: DECIMAL_PRECISION_def)
  have h3: "host_page_write_request small_disk_3 = 3" "page_write_executed small_disk_3 = 4"
    "page_write_failed small_disk_3 = 0"
    by (simp_all add: small_disk_3_def)
  have ha: "host_page_write_request amplification_tie_disk = 4096"
    "page_write_executed amplification_tie_disk = 4097"
    by (simp_all add: amplification_tie_disk_def)
  have hf: "page_write_executed failure_tie_disk = 262144"
    "page_write_failed failure_tie_disk = 1"
    by (simp_all add: failure_tie_disk_def)
  have h1: "host_page_write_request small_disk_1 = 0" "page_write_executed small_disk_1 = 1"
    by (simp_all add: small_disk_1_def)
  have h0: "host_page_write_request (BaseNANDDisk_init small_geometry) = 0"
    "page_write_executed (BaseNANDDisk_init small_geometry) = 0"
    "page_write_failed (BaseNANDDisk_init small_geometry) = 0"
    by (simp_all add: BaseNANDDisk_init_def)
  have r3: "rounded_at DECIMAL_PRECISION (of_int 4 / of_int 3) 0 133333333333
              (133333333333 / 100000000000)"
    by (simp add: rounded_at_def nearest_even_def DECIMAL_PRECISION_def)
  have ra: "rounded_at DECIMAL_PRECISION (of_int 4097 / of_int 4096) 0 100024414062
              (100024414062 / 100000000000)"
    by (simp add: rounded_at_def nearest_even_def DECIMAL_PRECISION_def)
  have rf: "rounded_at DECIMAL_PRECISION (of_int 100 / of_int 262144) (- 4) 381469726562
              (381469726562 / 1000000000000000)"
    by (simp add: rounded_at_def nearest_even_def DECIMAL_PRECISION_def)
  have nz: "(3::int) \<noteq> 0" "(4096::int) \<noteq> 0" "(262144::int) \<noteq> 0" by simp_all
  note t3 = ratio_statistics [OF p, of small_disk_3, unfolded h3]
  from t3 nz(1) obtain r3' where r3':
    "write_amplification DECIMAL_PRECISION small_disk_3 = Inr r3'"
    "\<forall>e c r'. rounded_at DECIMAL_PRECISION (of_int 4 / of_int 3) e c r' \<longrightarrow> r' = r3'"
    by blast
  from r3'(2) r3 have "133333333333 / 100000000000 = r3'" by blast
  with r3'(1) have w3: "write_amplification DECIMAL_PRECISION small_disk_3
      = Inr (133333333333 / 100000000000)" by simp
  have nz4: "(4::int) \<noteq> 0" by simp
  from t3 nz4 obtain m3 f3' where m3: "\<bar>(0::int) * 100\<bar> < 10 ^ DECIMAL_PRECISION \<longrightarrow> m3 = 0 * 100"
    and f3': "failure_rate DECIMAL_PRECISION small_disk_3 = Inr f3'"
      "4 dvd m3 \<and> \<bar>m3 div 4\<bar> < 10 ^ DECIMAL_PRECISION \<longrightarrow> f3' = of_int (m3 div 4)"
    by blast
  from m3 have "m3 = 0" by simp
  with f3'(2) have "f3' = 0" by simp
  with f3'(1) have f3: "failure_rate DECIMAL_PRECISION small_disk_3 = Inr 0" by simp
  from ratio_statistics [OF p, of amplification_tie_disk, unfolded ha] nz(2)
  obtain ra' where ra':
    "write_amplification DECIMAL_PRECISION amplification_tie_disk = Inr ra'"
    "\<forall>e c r'. rounded_at DECIMAL_PRECISION (of_int 4097 / of_int 4096) e c r' \<longrightarrow> r' = ra'"
    by blast
  from ra'(2) ra have "100024414062 / 100000000000 = ra'" by blast
  with ra'(1) have wa: "write_amplification DECIMAL_PRECISION amplification_tie_disk
      = Inr (100024414062 / 100000000000)" by simp
  from ratio_statistics [OF p, of failure_tie_disk, unfolded hf] nz(3)
  obtain m r where m: "\<bar>(1::int) * 100\<bar> < 10 ^ DECIMAL_PRECISION \<longrightarrow> m = 1 * 100"
    and r: "failure_rate DECIMAL_PRECISION failure_tie_disk = Inr r"
      "\<forall>e c r'. rounded_at DECIMAL_PRECISION (of_int m / of_int 262144) e c r' \<longrightarrow> r' = r"
    by blast
  from m have "m = 100" by (simp add: DECIMAL_PRECISION_def)
  with r(2) have "\<forall>e c r'. rounded_at DECIMAL_PRECISION (of_int 100 / of_int 262144) e c r'
      \<longrightarrow> r' = r" by simp
  with rf have "381469726562 / 1000000000000000 = r" by blast
  with r(1) have ff: "failure_rate DECIMAL_PRECISION failure_tie_disk
      = Inr (381469726562 / 1000000000000000)" by simp
  from ratio_statistics [OF p, of small_disk_1]
  have w1: "write_amplification DECIMAL_PRECISION small_disk_1 = Inl DivisionByZero"
    unfolding h1 by simp
  from ratio_statistics [OF p, of "BaseNANDDisk_init small_geometry"]
  have w0: "write_amplification DECIMAL_PRECISION (BaseNANDDisk_init small_geometry)
              = Inl InvalidOperation"
    and f0: "failure_rate DECIMAL_PRECISION (BaseNANDDisk_init small_geometry)
              = Inl InvalidOperation"
    unfolding h0 by simp_all
  from reachable_small_disk_3 w3 f3 reachable_amplification_tie_disk ha wa
    reachable_failure_tie_disk hf ff w1 w0 f0
  show ?thesis by (intro conjI)
qed

text \<open>
  Claim C7 as stated has the ratio computed exactly. With 4 pages written for 3 requested
  and the precision of 12 digits, \<^verbatim>\<open>write_amplification\<close> returns 1.33333333333, which is
  not 4 / 3.
\<close>

theorem write_amplification_is_rounded:
  "reachable 2 InPlace small_geometry small_disk_3 \<and>
   page_write_executed small_disk_3 = 4 \<and> host_page_write_request small_disk_3 = 3 \<and>
   write_amplification DECIMAL_PRECISION small_disk_3 = Inr (133333333333 / 100000000000) \<and>
   (133333333333 / 100000000000 :: rat) \<noteq> 4 / 3"
  using reachable_small_disk_3
  by (simp add: decimal_defs small_disk_3_def)

end
